theory Spec2Isabelle
  imports Main
begin

section \<open>Data model\<close>

text \<open>
  Exceptions are values. Every \<^verbatim>\<open>raise\<close> the modelled Python can reach is one of
  these constructors; the string is the exception's argument.
\<close>

datatype error =
    KeyError string
  | NameError string
  | AttributeError string
  | TypeError string
  | ValidationError string
  | ClientError string

text \<open>
  Literal Python values, as \<^verbatim>\<open>ast.Constant.value\<close> holds them and as the nested
  structures of a record carry them. Strings are byte strings (ASCII); bytes, float and
  complex literals are outside the modelled fragment.
\<close>

datatype literal = CStr string | CInt int | CBool bool | CNone

datatype pyval = VConst literal | VList "pyval list" | VDict "(literal \<times> pyval) list"

text \<open>
  An operation as the store and the service hold it: a Python \<^verbatim>\<open>dict\<close>. A key the code
  reads with \<^verbatim>\<open>op["k"]\<close>, \<^verbatim>\<open>op.get("k")\<close>, \<^verbatim>\<open>"k" in op\<close> or writes is a field of
  option type, \<open>None\<close> when the key is absent; the values have the types of the validated
  schema (\<^verbatim>\<open>OperationModel\<close>). The remaining keys (description, method, params, type,
  schema, ...) are never inspected by the synchronizer and travel in \<open>op_other\<close>.
\<close>

record op =
  op_id :: "string option"
  op_name :: "string option"
  op_url :: "string option"
  op_tags :: "string list option"
  op_tag :: "string option"
  op_includeAccessToken :: "bool option"
  op_other :: "(string \<times> pyval) list"

text \<open>The pydantic models of \<^verbatim>\<open>tools/ops.py\<close>.\<close>

record ParamModel =
  param_description :: string
  param_name :: string

record OperationModel =
  description :: string
  id' :: string
  includeAccessToken :: bool
  method' :: string
  name :: string
  tags :: "string list"
  params :: "ParamModel list"
  type :: string
  url :: string
  schema :: "pyval option"

text \<open>The result dictionaries \<^verbatim>\<open>{"success": ..., "message": ...}\<close>.\<close>

record response =
  success :: bool
  message :: string

record fetch_response = response +
  data :: "op list"

text \<open>
  The table. Its primary key is the pair (user, tag): that is the \<^verbatim>\<open>Key\<close> of every
  \<^verbatim>\<open>update_item\<close> and \<^verbatim>\<open>delete_item\<close>, so a query on both attributes returns no item or
  one item. An item is represented by its \<^verbatim>\<open>ops\<close> attribute, \<open>None\<close> when the item has no
  such attribute; the item's other attributes (the uuid \<^verbatim>\<open>id\<close>, \<^verbatim>\<open>user\<close>, \<^verbatim>\<open>tag\<close>) are
  never read back.
\<close>

type_synonym item = "op list option"

type_synonym table = "string \<times> string \<Rightarrow> item option"

definition table_not_set :: response where
  "table_not_set =
     \<lparr>success = False,
      message = ''DynamoDB table name is not set in environment variables''\<rparr>"

definition associated :: response where
  "associated =
     \<lparr>success = True,
      message = ''Successfully associated operations with provided tags and user''\<rparr>"

definition deleted :: response where
  "deleted =
     \<lparr>success = True,
      message = ''Successfully deleted the specified operation(s)''\<rparr>"

section \<open>The service: \<^verbatim>\<open>amplify-lambda-ops/service/core.py\<close>\<close>

subsection \<open>\<^verbatim>\<open>write_ops\<close>\<close>

text \<open>
  Lines 144-153: the scan of \<^verbatim>\<open>existing_ops\<close> for the first entry with the id of \<^verbatim>\<open>op\<close>,
  which is replaced at its index (then \<^verbatim>\<open>break\<close>); with no such entry \<^verbatim>\<open>op\<close> is
  appended. \<^verbatim>\<open>existing_op["id"]\<close> and \<^verbatim>\<open>op["id"]\<close> raise \<^verbatim>\<open>KeyError\<close> on a missing key.
\<close>

fun upsert_ops :: "op \<Rightarrow> op list \<Rightarrow> error + op list" where
  "upsert_ops op [] = Inr [op]"
| "upsert_ops op (existing_op # rest) =
     (case op_id existing_op of
        None \<Rightarrow> Inl (KeyError ''id'')
      | Some i \<Rightarrow>
          (case op_id op of
             None \<Rightarrow> Inl (KeyError ''id'')
           | Some j \<Rightarrow>
               if i = j then Inr (op # rest)
               else (case upsert_ops op rest of
                       Inl e \<Rightarrow> Inl e
                     | Inr ops' \<Rightarrow> Inr (existing_op # ops'))))"

text \<open>
  Lines 135-173, the body of \<^verbatim>\<open>for tag in operation_tags\<close>: query the item of
  (user, tag); update its \<^verbatim>\<open>ops\<close> when there is one, put a new item otherwise. An
  exception leaves the table as it was before this tag.
\<close>

definition write_tag :: "string \<Rightarrow> op \<Rightarrow> string \<Rightarrow> table \<Rightarrow> (error + unit) \<times> table" where
  "write_tag user op tag tbl =
     (case tbl (user, tag) of
        None \<Rightarrow> (Inr (), tbl((user, tag) \<mapsto> Some [op]))
      | Some item \<Rightarrow>
          (case item of
             None \<Rightarrow> (Inl (KeyError ''ops''), tbl)
           | Some existing_ops \<Rightarrow>
               (case upsert_ops op existing_ops of
                  Inl e \<Rightarrow> (Inl e, tbl)
                | Inr ops' \<Rightarrow> (Inr (), tbl((user, tag) \<mapsto> Some ops')))))"

text \<open>The loop over the tags: the first exception ends it, earlier writes stay.\<close>

fun write_tags :: "string \<Rightarrow> op \<Rightarrow> string list \<Rightarrow> table \<Rightarrow> (error + unit) \<times> table" where
  "write_tags user op [] tbl = (Inr (), tbl)"
| "write_tags user op (tag # rest) tbl =
     (case write_tag user op tag tbl of
        (Inl e, tbl') \<Rightarrow> (Inl e, tbl')
      | (Inr u, tbl') \<Rightarrow> write_tags user op rest tbl')"

text \<open>
  Lines 124-131. \<^verbatim>\<open>del op["tag"]\<close>, \<^verbatim>\<open>op["includeAccessToken"] = True\<close>, and
  \<^verbatim>\<open>operation_tags = op.get("tags", ["default"])\<close> followed by
  \<^verbatim>\<open>operation_tags.append("all")\<close>. When the key is present \<^verbatim>\<open>operation_tags\<close> is the
  very list held by \<^verbatim>\<open>op\<close>, so the append changes \<^verbatim>\<open>op["tags"]\<close> too; the default list
  is a fresh one and leaves \<^verbatim>\<open>op\<close> without the key.
\<close>

definition operation_tags :: "op \<Rightarrow> string list" where
  "operation_tags op =
     (case op_tags op of None \<Rightarrow> [''default''] | Some ts \<Rightarrow> ts) @ [''all'']"

definition append_all :: "op \<Rightarrow> op" where
  "append_all op =
     (case op_tags op of
        None \<Rightarrow> op
      | Some ts \<Rightarrow> op\<lparr>op_tags := Some (ts @ [''all''])\<rparr>)"

definition prepared :: "op \<Rightarrow> op" where
  "prepared op = append_all (op\<lparr>op_tag := None, op_includeAccessToken := Some True\<rparr>)"

text \<open>Lines 123-173, the body of \<^verbatim>\<open>for op in ops\<close>.\<close>

definition write_op :: "string \<Rightarrow> op \<Rightarrow> table \<Rightarrow> (error + unit) \<times> table" where
  "write_op user op tbl = write_tags user (prepared op) (operation_tags op) tbl"

fun write_each :: "string \<Rightarrow> op list \<Rightarrow> table \<Rightarrow> (error + unit) \<times> table" where
  "write_each user [] tbl = (Inr (), tbl)"
| "write_each user (op # rest) tbl =
     (case write_op user op tbl of
        (Inl e, tbl') \<Rightarrow> (Inl e, tbl')
      | (Inr u, tbl') \<Rightarrow> write_each user rest tbl')"

text \<open>
  \<^verbatim>\<open>write_ops(event, context, current_user, name, data)\<close>. \<open>ops\<close> is
  \<^verbatim>\<open>data["data"]["ops"]\<close>, \<open>table_name\<close> is what
  \<^verbatim>\<open>os.environ.get("OPS_DYNAMODB_TABLE")\<close> returns. The result is what the call returns or
  raises, with the table it leaves behind.
\<close>

definition write_ops ::
  "string option \<Rightarrow> string \<Rightarrow> op list \<Rightarrow> table \<Rightarrow> (error + response) \<times> table" where
  "write_ops table_name current_user ops tbl =
     (let user = ''system'' in
      if table_name = None \<or> table_name = Some [] then (Inr table_not_set, tbl)
      else (case write_each user ops tbl of
              (Inl e, tbl') \<Rightarrow> (Inl e, tbl')
            | (Inr u, tbl') \<Rightarrow> (Inr associated, tbl')))"

text \<open>
  A tag is stable in a table when writing the operation under it leaves the table as it
  is: the write is refused, or it stores the list that is already there.
\<close>

definition stable :: "string \<Rightarrow> op \<Rightarrow> string \<Rightarrow> table \<Rightarrow> bool" where
  "stable user op tag tbl = (snd (write_tag user op tag tbl) = tbl)"

text \<open>An operation is present in the partition of (user, tag).\<close>

definition present :: "string \<Rightarrow> op \<Rightarrow> string \<Rightarrow> table \<Rightarrow> bool" where
  "present user op tag tbl =
     (case tbl (user, tag) of
        None \<Rightarrow> False
      | Some None \<Rightarrow> False
      | Some (Some xs) \<Rightarrow> op \<in> set xs)"

subsection \<open>\<^verbatim>\<open>delete_op\<close>\<close>

text \<open>
  Lines 214-218, the test on one stored entry:
  \<^verbatim>\<open>existing_op.get("id") == op["id"] and existing_op.get("name") == op["name"] and
  existing_op.get("url") == op["url"]\<close>. \<^verbatim>\<open>and\<close> evaluates from the left and stops at the
  first false conjunct, so \<^verbatim>\<open>op["name"]\<close> and \<^verbatim>\<open>op["url"]\<close> raise \<^verbatim>\<open>KeyError\<close> only when
  they are reached. \<^verbatim>\<open>.get\<close> of a missing key is \<^verbatim>\<open>None\<close>, which equals no string.
\<close>

definition matches :: "op \<Rightarrow> op \<Rightarrow> error + bool" where
  "matches existing_op op =
     (case op_id op of
        None \<Rightarrow> Inl (KeyError ''id'')
      | Some i \<Rightarrow>
          if op_id existing_op = Some i then
            (case op_name op of
               None \<Rightarrow> Inl (KeyError ''name'')
             | Some n \<Rightarrow>
                 if op_name existing_op = Some n then
                   (case op_url op of
                      None \<Rightarrow> Inl (KeyError ''url'')
                    | Some u \<Rightarrow> Inr (op_url existing_op = Some u))
                 else Inr False)
          else Inr False)"

text \<open>
  Lines 211-221: \<^verbatim>\<open>filtered_ops\<close> keeps, in order, the entries that do not match. (The
  flag \<^verbatim>\<open>deleted_any\<close> only decides a \<^verbatim>\<open>print\<close>.)
\<close>

fun filter_ops :: "op \<Rightarrow> op list \<Rightarrow> error + op list" where
  "filter_ops op [] = Inr []"
| "filter_ops op (existing_op # rest) =
     (case matches existing_op op of
        Inl e \<Rightarrow> Inl e
      | Inr m \<Rightarrow>
          (case filter_ops op rest of
             Inl e \<Rightarrow> Inl e
           | Inr filtered_ops \<Rightarrow>
               Inr (if m then filtered_ops else existing_op # filtered_ops)))"

text \<open>
  Lines 203-239, the body of \<^verbatim>\<open>for tag in op["tags"]\<close>. \<^verbatim>\<open>item.get("ops", [])\<close> reads an
  item without the attribute as an empty list. A shorter list is written back, or the
  item is deleted when nothing is left; a list of the same length is not written.
\<close>

definition delete_tag :: "string \<Rightarrow> op \<Rightarrow> string \<Rightarrow> table \<Rightarrow> (error + unit) \<times> table" where
  "delete_tag user op tag tbl =
     (case tbl (user, tag) of
        None \<Rightarrow> (Inr (), tbl)
      | Some item \<Rightarrow>
          (let existing_ops = (case item of None \<Rightarrow> [] | Some xs \<Rightarrow> xs)
           in case filter_ops op existing_ops of
                Inl e \<Rightarrow> (Inl e, tbl)
              | Inr filtered_ops \<Rightarrow>
                  if length filtered_ops \<noteq> length existing_ops then
                    if filtered_ops \<noteq> [] then
                      (Inr (), tbl((user, tag) \<mapsto> Some filtered_ops))
                    else (Inr (), tbl((user, tag) := None))
                  else (Inr (), tbl)))"

fun delete_tags :: "string \<Rightarrow> op \<Rightarrow> string list \<Rightarrow> table \<Rightarrow> (error + unit) \<times> table" where
  "delete_tags user op [] tbl = (Inr (), tbl)"
| "delete_tags user op (tag # rest) tbl =
     (case delete_tag user op tag tbl of
        (Inl e, tbl') \<Rightarrow> (Inl e, tbl')
      | (Inr u, tbl') \<Rightarrow> delete_tags user op rest tbl')"

text \<open>
  \<^verbatim>\<open>delete_op(event, context, current_user, name, data)\<close>, \<open>op\<close> being
  \<^verbatim>\<open>data["data"]["op"]\<close>. Lines 184-186 append \<^verbatim>\<open>"all"\<close> to the list of the reference when it
  has one without it; a reference with no \<^verbatim>\<open>tags\<close> key gets its default in a fresh
  list and then fails at \<^verbatim>\<open>op["tags"]\<close> in line 200, after the check of the table name.
\<close>

definition delete_op ::
  "string option \<Rightarrow> string \<Rightarrow> op \<Rightarrow> table \<Rightarrow> (error + response) \<times> table" where
  "delete_op table_name current_user op0 tbl =
     (let op = (case op_tags op0 of
                  None \<Rightarrow> op0
                | Some ts \<Rightarrow>
                    if ''all'' \<in> set ts then op0
                    else op0\<lparr>op_tags := Some (ts @ [''all''])\<rparr>);
          user = ''system''
      in if table_name = None \<or> table_name = Some [] then (Inr table_not_set, tbl)
         else (case op_tags op of
                 None \<Rightarrow> (Inl (KeyError ''tags''), tbl)
               | Some ts \<Rightarrow>
                   (case delete_tags user op ts tbl of
                      (Inl e, tbl') \<Rightarrow> (Inl e, tbl')
                    | (Inr u, tbl') \<Rightarrow> (Inr deleted, tbl'))))"

text \<open>The records of the partition (user, tag); an absent partition has none.\<close>

definition records :: "table \<Rightarrow> string \<Rightarrow> string \<Rightarrow> op list" where
  "records tbl user tag =
     (case tbl (user, tag) of
        None \<Rightarrow> []
      | Some None \<Rightarrow> []
      | Some (Some xs) \<Rightarrow> xs)"

subsection \<open>\<^verbatim>\<open>fetch_user_ops\<close>\<close>

text \<open>
  The response of \<^verbatim>\<open>dynamodb.query\<close>: the items of the page and the key to continue from,
  when there is one. A key is the (user, tag) of the last item read; as a non-empty
  dictionary it is true in a condition.
\<close>

record query_response =
  Items :: "item list"
  LastEvaluatedKey :: "(string \<times> string) option"

text \<open>
  \<^verbatim>\<open>dynamodb.query(**query_params)\<close> as a function of what varies in \<^verbatim>\<open>query_params\<close>: the
  values of \<^verbatim>\<open>:user\<close> and \<^verbatim>\<open>:tag\<close> and the \<^verbatim>\<open>ExclusiveStartKey\<close>. The store is outside the
  program and may raise.
\<close>

type_synonym query = "string \<Rightarrow> string \<Rightarrow> (string \<times> string) option \<Rightarrow> error + query_response"

text \<open>
  Lines 61-79, the \<^verbatim>\<open>while True\<close> loop. It ends at the first response without a
  \<^verbatim>\<open>LastEvaluatedKey\<close> or at an exception; a store that always hands out a key keeps it
  running, and the value is \<open>None\<close>. The loop returns the last response and \<^verbatim>\<open>all_items\<close>.
\<close>

partial_function (option) query_loop ::
  "query \<Rightarrow> string \<Rightarrow> string \<Rightarrow> (string \<times> string) option \<Rightarrow> item list \<Rightarrow>
     (error + query_response \<times> item list) option" where
  "query_loop q current_user tag last_evaluated_key all_items =
     (case q current_user tag last_evaluated_key of
        Inl e \<Rightarrow> Some (Inl e)
      | Inr response \<Rightarrow>
          (case LastEvaluatedKey response of
             None \<Rightarrow> Some (Inr (response, all_items @ Items response))
           | Some k \<Rightarrow> query_loop q current_user tag (Some k) (all_items @ Items response)))"

text \<open>
  Lines 82-87: \<^verbatim>\<open>item["ops"]\<close> of every item of the response, deserialized and flattened
  into one list. An item without the attribute raises \<^verbatim>\<open>KeyError\<close>.
\<close>

fun item_ops :: "item list \<Rightarrow> error + op list" where
  "item_ops [] = Inr []"
| "item_ops (item # rest) =
     (case item of
        None \<Rightarrow> Inl (KeyError ''ops'')
      | Some ops \<Rightarrow>
          (case item_ops rest of
             Inl e \<Rightarrow> Inl e
           | Inr flattened \<Rightarrow> Inr (ops @ flattened)))"

definition retrieved :: "op list \<Rightarrow> fetch_response" where
  "retrieved d =
     \<lparr>success = True,
      message = ''Successfully retrieved available operations for user'',
      data = d\<rparr>"

text \<open>
  \<^verbatim>\<open>fetch_user_ops(current_user, tag)\<close>. The list is built from \<^verbatim>\<open>response["Items"]\<close>, the
  last response, not from \<^verbatim>\<open>all_items\<close>. For a user other than \<^verbatim>\<open>"system"\<close> the function
  calls itself for \<^verbatim>\<open>"system"\<close> inside \<^verbatim>\<open>try\<close>; \<^verbatim>\<open>except Exception\<close> swallows whatever that
  call raises.
\<close>

function fetch_user_ops :: "query \<Rightarrow> string \<Rightarrow> string \<Rightarrow> (error + fetch_response) option" where
  "fetch_user_ops q current_user tag =
     (case query_loop q current_user tag None [] of
        None \<Rightarrow> None
      | Some (Inl e) \<Rightarrow> Some (Inl e)
      | Some (Inr (response, all_items)) \<Rightarrow>
          (case item_ops (Items response) of
             Inl e \<Rightarrow> Some (Inl e)
           | Inr data_from_dynamo \<Rightarrow>
               if current_user \<noteq> ''system'' then
                 (case fetch_user_ops q ''system'' tag of
                    None \<Rightarrow> None
                  | Some (Inl e) \<Rightarrow> Some (Inr (retrieved data_from_dynamo))
                  | Some (Inr system_ops) \<Rightarrow>
                      Some (Inr (retrieved (data_from_dynamo @ data system_ops))))
               else Some (Inr (retrieved data_from_dynamo))))"
  by pat_completeness auto
termination
  by (relation "measure (\<lambda>(q, current_user, tag). if current_user = ''system'' then 0 else 1)")
     auto

text \<open>
  The query of a table held in memory: the item of the key when there is one, in one page.
\<close>

definition table_query :: "table \<Rightarrow> query" where
  "table_query tbl current_user tag start =
     Inr \<lparr>Items = (case tbl (current_user, tag) of None \<Rightarrow> [] | Some item \<Rightarrow> [item]),
          LastEvaluatedKey = None\<rparr>"

text \<open>The same store with the partitions of \<^verbatim>\<open>"system"\<close> out of reach.\<close>

definition system_down :: "table \<Rightarrow> query" where
  "system_down tbl current_user tag start =
     (if current_user = ''system'' then Inl (ClientError ''system partition unreachable'')
      else table_query tbl current_user tag start)"

section \<open>The command line tool: \<^verbatim>\<open>tools/ops.py\<close>\<close>

subsection \<open>\<^verbatim>\<open>write_ops\<close>\<close>

text \<open>
  \<^verbatim>\<open>op.model_dump()\<close>: the dictionary of a validated model, every field a key. The
  fields the synchronizer does not inspect are listed in declaration order.
\<close>

definition dump_param :: "ParamModel \<Rightarrow> pyval" where
  "dump_param p =
     VDict [(CStr ''description'', VConst (CStr (param_description p))),
            (CStr ''name'', VConst (CStr (param_name p)))]"

definition model_dump :: "OperationModel \<Rightarrow> op" where
  "model_dump m =
     \<lparr>op_id = Some (id' m),
      op_name = Some (name m),
      op_url = Some (url m),
      op_tags = Some (tags m),
      op_tag = None,
      op_includeAccessToken = Some (includeAccessToken m),
      op_other =
        [(''description'', VConst (CStr (description m))),
         (''method'', VConst (CStr (method' m))),
         (''params'', VList (map dump_param (params m))),
         (''type'', VConst (CStr (type m))),
         (''schema'', (case schema m of None \<Rightarrow> VConst CNone | Some d \<Rightarrow> d))]\<rparr>"

text \<open>
  Lines 339-350. The scan is the service's, but the branch taken at the entry with the
  id of \<^verbatim>\<open>op_dict\<close> first evaluates \<^verbatim>\<open>json.dumps(op_dict, indent=2)\<close> for a
  \<^verbatim>\<open>print\<close>, and the module never imports \<^verbatim>\<open>json\<close>: the name lookup raises
  \<^verbatim>\<open>NameError\<close> before \<^verbatim>\<open>existing_ops[index] = op_dict\<close> is reached.
\<close>

fun upsert_ops_cli :: "op \<Rightarrow> op list \<Rightarrow> error + op list" where
  "upsert_ops_cli op_dict [] = Inr [op_dict]"
| "upsert_ops_cli op_dict (existing_op # rest) =
     (case op_id existing_op of
        None \<Rightarrow> Inl (KeyError ''id'')
      | Some i \<Rightarrow>
          (case op_id op_dict of
             None \<Rightarrow> Inl (KeyError ''id'')
           | Some j \<Rightarrow>
               if i = j then Inl (NameError ''json'')
               else (case upsert_ops_cli op_dict rest of
                       Inl e \<Rightarrow> Inl e
                     | Inr ops' \<Rightarrow> Inr (existing_op # ops'))))"

text \<open>Lines 327-376, the body of \<^verbatim>\<open>for tag in operation_tags\<close>.\<close>

definition write_tag_cli ::
  "string \<Rightarrow> op \<Rightarrow> string \<Rightarrow> table \<Rightarrow> (error + unit) \<times> table" where
  "write_tag_cli current_user op_dict tag tbl =
     (case tbl (current_user, tag) of
        None \<Rightarrow> (Inr (), tbl((current_user, tag) \<mapsto> Some [op_dict]))
      | Some item \<Rightarrow>
          (case item of
             None \<Rightarrow> (Inl (KeyError ''ops''), tbl)
           | Some existing_ops \<Rightarrow>
               (case upsert_ops_cli op_dict existing_ops of
                  Inl e \<Rightarrow> (Inl e, tbl)
                | Inr ops' \<Rightarrow> (Inr (), tbl((current_user, tag) \<mapsto> Some ops')))))"

fun write_tags_cli ::
  "string \<Rightarrow> op \<Rightarrow> string list \<Rightarrow> table \<Rightarrow> (error + unit) \<times> table" where
  "write_tags_cli current_user op_dict [] tbl = (Inr (), tbl)"
| "write_tags_cli current_user op_dict (tag # rest) tbl =
     (case write_tag_cli current_user op_dict tag tbl of
        (Inl e, tbl') \<Rightarrow> (Inl e, tbl')
      | (Inr u, tbl') \<Rightarrow> write_tags_cli current_user op_dict rest tbl')"

text \<open>
  Lines 316-376, the body of \<^verbatim>\<open>for op in ops\<close>: dump the model, take its tags (the
  key is always there, the default never applies), append \<^verbatim>\<open>"all"\<close> to that list and
  write under every tag.
\<close>

definition write_op_cli ::
  "string \<Rightarrow> OperationModel \<Rightarrow> table \<Rightarrow> (error + unit) \<times> table" where
  "write_op_cli current_user m tbl =
     (let op_dict = model_dump m
      in write_tags_cli current_user (append_all op_dict) (operation_tags op_dict) tbl)"

fun write_each_cli ::
  "string \<Rightarrow> OperationModel list \<Rightarrow> table \<Rightarrow> (error + unit) \<times> table" where
  "write_each_cli current_user [] tbl = (Inr (), tbl)"
| "write_each_cli current_user (m # rest) tbl =
     (case write_op_cli current_user m tbl of
        (Inl e, tbl') \<Rightarrow> (Inl e, tbl')
      | (Inr u, tbl') \<Rightarrow> write_each_cli current_user rest tbl')"

text \<open>
  \<^verbatim>\<open>write_ops(current_user, tags, ops)\<close>. \<^verbatim>\<open>print_pretty_ops(ops)\<close> runs first and
  iterates over \<^verbatim>\<open>ops\<close>, so \<^verbatim>\<open>ops=None\<close> raises \<^verbatim>\<open>TypeError\<close> there; the later test
  \<^verbatim>\<open>ops is None\<close> is then never true. The argument \<^verbatim>\<open>tags\<close> is not used.
\<close>

definition write_ops_cli ::
  "string option \<Rightarrow> string \<Rightarrow> string list option \<Rightarrow> OperationModel list option \<Rightarrow> table \<Rightarrow>
     (error + response) \<times> table" where
  "write_ops_cli table_name current_user tags_arg ops tbl =
     (case ops of
        None \<Rightarrow> (Inl (TypeError ''NoneType object is not iterable''), tbl)
      | Some ms \<Rightarrow>
          if table_name = None \<or> table_name = Some [] then (Inr table_not_set, tbl)
          else (case write_each_cli current_user ms tbl of
                  (Inl e, tbl') \<Rightarrow> (Inl e, tbl')
                | (Inr u, tbl') \<Rightarrow> (Inr associated, tbl')))"

section \<open>Example data\<close>

text \<open>The record of the specification's end-to-end example, and a later version of it.\<close>

definition echo :: OperationModel where
  "echo =
     \<lparr>description = ''d'', id' = ''op1'', includeAccessToken = True, method' = ''POST'',
      name = ''Echo'', tags = [''default''], params = [], type = ''custom'',
      url = ''/echo'', schema = None\<rparr>"

definition echo2 :: OperationModel where
  "echo2 = echo\<lparr>description := ''a new description''\<rparr>"

definition echo_op :: op where
  "echo_op =
     \<lparr>op_id = Some ''op1'', op_name = Some ''Echo'', op_url = Some ''/echo'',
      op_tags = Some [''default''], op_tag = None, op_includeAccessToken = Some True,
      op_other = [(''description'', VConst (CStr ''d'')), (''method'', VConst (CStr ''POST''))]\<rparr>"

definition no_table :: table where
  "no_table = (\<lambda>k. None)"

text \<open>The table after the tool has registered \<open>echo\<close> for owner \<^verbatim>\<open>"system"\<close> in an empty table.\<close>

definition registered :: table where
  "registered = snd (write_ops_cli (Some ''ops'') ''system'' None (Some [echo]) no_table)"

text \<open>
  A record that shares id and name with \<open>echo_op\<close> and has another url, and a table whose
  \<^verbatim>\<open>"default"\<close> partition of \<^verbatim>\<open>"system"\<close> holds both.
\<close>

definition moved_op :: op where
  "moved_op = echo_op\<lparr>op_url := Some ''/echo/v2''\<rparr>"

definition two_ops :: table where
  "two_ops = no_table((''system'', ''default'') \<mapsto> Some [echo_op, moved_op])"

text \<open>The same table with a partition of another owner added.\<close>

definition with_alice :: table where
  "with_alice = two_ops((''alice'', ''default'') \<mapsto> Some [moved_op])"

text \<open>
  A partition is fit for an upsert by the service when it is absent or its item holds a
  list whose entries all carry an id; for the tool, which stops at an entry with the id
  of the record, when moreover none of these ids is that of the record.
\<close>

definition with_ids :: "table \<Rightarrow> string \<Rightarrow> string \<Rightarrow> bool" where
  "with_ids tbl user tag =
     (case tbl (user, tag) of
        None \<Rightarrow> True
      | Some None \<Rightarrow> False
      | Some (Some xs) \<Rightarrow> list_all (\<lambda>e. case op_id e of None \<Rightarrow> False | Some j \<Rightarrow> True) xs)"

definition without_id :: "table \<Rightarrow> string \<Rightarrow> string \<Rightarrow> string \<Rightarrow> bool" where
  "without_id tbl user tag i =
     (case tbl (user, tag) of
        None \<Rightarrow> True
      | Some None \<Rightarrow> False
      | Some (Some xs) \<Rightarrow>
          list_all (\<lambda>e. case op_id e of None \<Rightarrow> False | Some j \<Rightarrow> (if j = i then False else True)) xs)"

text \<open>
  A record with another id, and a table with partitions of \<^verbatim>\<open>"system"\<close> and of
  \<^verbatim>\<open>"alice"\<close> that hold it; the \<^verbatim>\<open>"default"\<close> partition of \<^verbatim>\<open>"system"\<close> holds an older
  version of \<open>echo_op\<close> as well.
\<close>

definition other_op :: op where
  "other_op = echo_op\<lparr>op_id := Some ''op2'', op_name := Some ''Other'', op_url := Some ''/other''\<rparr>"

definition stocked :: table where
  "stocked =
     no_table((''system'', ''default'') \<mapsto> Some [other_op, moved_op],
              (''system'', ''all'') \<mapsto> Some [other_op],
              (''alice'', ''default'') \<mapsto> Some [other_op])"

section \<open>The declaration scanner: \<^verbatim>\<open>tools/ops.py\<close>\<close>

subsection \<open>Syntax trees\<close>

text \<open>
  The expression nodes of Python's \<^verbatim>\<open>ast\<close> that the scanner tells apart; every other
  node is \<open>Other\<close>. A \<^verbatim>\<open>Dict\<close> is the list of its (key, value) pairs, that is
  \<^verbatim>\<open>zip(node.keys, node.values)\<close>, the key \<open>None\<close> for a \<^verbatim>\<open>**\<close> entry. A \<^verbatim>\<open>Call\<close> has its
  function, its positional arguments and its keywords (\<^verbatim>\<open>arg\<close>, \<^verbatim>\<open>value\<close>), \<^verbatim>\<open>arg\<close> being
  \<open>None\<close> for \<^verbatim>\<open>**kwargs\<close>. The model follows Python 3.8 to 3.13, where every literal is
  an \<^verbatim>\<open>ast.Constant\<close>, \<^verbatim>\<open>isinstance(x, ast.Str)\<close> holds for the constants with a string
  value, and \<^verbatim>\<open>.s\<close> reads the value of any constant.
\<close>

datatype expr =
    Constant literal
  | Dict "(expr option \<times> expr) list"
  | List "expr list"
  | Name string
  | Call expr "expr list" "(string option \<times> expr) list"
  | Other

text \<open>
  What \<^verbatim>\<open>ast.walk(tree)\<close> yields: function definitions with their name and decorator
  list, and nodes of other kinds.
\<close>

datatype node = FunctionDef string "expr list" | OtherNode

subsection \<open>Dictionaries built by the scanner\<close>

text \<open>
  Two literals are the same dictionary key when Python finds them equal: \<^verbatim>\<open>True == 1\<close>
  and \<^verbatim>\<open>False == 0\<close>.
\<close>

fun same_key :: "literal \<Rightarrow> literal \<Rightarrow> bool" where
  "same_key (CInt n) (CBool b) = (n = (if b then 1 else 0))"
| "same_key (CBool b) (CInt n) = (n = (if b then 1 else 0))"
| "same_key a b = (a = b)"

text \<open>
  \<^verbatim>\<open>d[k] = v\<close> on an insertion-ordered dictionary: an existing key keeps its place and its
  key object and gets the new value, a new key goes to the end.
\<close>

fun dict_set :: "(literal \<times> 'v) list \<Rightarrow> literal \<Rightarrow> 'v \<Rightarrow> (literal \<times> 'v) list" where
  "dict_set [] k v = [(k, v)]"
| "dict_set ((k', v') # rest) k v =
     (if same_key k' k then (k', v) # rest else (k', v') # dict_set rest k v)"

text \<open>\<^verbatim>\<open>dict(pairs)\<close> and a dictionary comprehension: the pairs are set from left to right.\<close>

definition dict_of :: "(literal \<times> 'v) list \<Rightarrow> (literal \<times> 'v) list" where
  "dict_of pairs = foldl (\<lambda>d (k, v). dict_set d k v) [] pairs"

subsection \<open>Extraction helpers\<close>

text \<open>\<^verbatim>\<open>x.s\<close>: the value of a constant, \<^verbatim>\<open>AttributeError\<close> on any other node.\<close>

definition attr_s :: "expr \<Rightarrow> error + literal" where
  "attr_s x = (case x of Constant v \<Rightarrow> Inr v | _ \<Rightarrow> Inl (AttributeError ''s''))"

text \<open>
  \<^verbatim>\<open>extract_dict(ast_node)\<close>:
  \<^verbatim>\<open>{key.s: value.s for key, value in zip(ast_node.keys, ast_node.values)}\<close>. A node that is
  no \<^verbatim>\<open>Dict\<close> has no \<^verbatim>\<open>keys\<close>; a \<^verbatim>\<open>**\<close> entry has the key \<^verbatim>\<open>None\<close>, which has no \<^verbatim>\<open>s\<close>.
\<close>

fun extract_pairs :: "(expr option \<times> expr) list \<Rightarrow> error + (literal \<times> literal) list" where
  "extract_pairs [] = Inr []"
| "extract_pairs ((key, val) # rest) =
     (case key of
        None \<Rightarrow> Inl (AttributeError ''s'')
      | Some k \<Rightarrow>
          (case attr_s k of
             Inl e \<Rightarrow> Inl e
           | Inr ks \<Rightarrow>
               (case attr_s val of
                  Inl e \<Rightarrow> Inl e
                | Inr vs \<Rightarrow>
                    (case extract_pairs rest of
                       Inl e \<Rightarrow> Inl e
                     | Inr pairs \<Rightarrow> Inr ((ks, vs) # pairs)))))"

definition extract_dict :: "expr \<Rightarrow> error + (literal \<times> literal) list" where
  "extract_dict ast_node =
     (case ast_node of
        Dict items \<Rightarrow>
          (case extract_pairs items of
             Inl e \<Rightarrow> Inl e
           | Inr pairs \<Rightarrow> Inr (dict_of pairs))
      | _ \<Rightarrow> Inl (AttributeError ''keys''))"

text \<open>
  The elements of a list value in \<^verbatim>\<open>extract_dict_from_ast\<close>:
  \<^verbatim>\<open>[x.value if isinstance(x, ast.Constant) else x.s for x in v.elts]\<close>. The \<^verbatim>\<open>else\<close> branch
  is taken by the nodes that are no constants, and they have no \<^verbatim>\<open>s\<close>.
\<close>

fun constant_values :: "expr list \<Rightarrow> error + pyval list" where
  "constant_values [] = Inr []"
| "constant_values (x # rest) =
     (case x of
        Constant v \<Rightarrow>
          (case constant_values rest of
             Inl e \<Rightarrow> Inl e
           | Inr vs \<Rightarrow> Inr (VConst v # vs))
      | _ \<Rightarrow> Inl (AttributeError ''s''))"

text \<open>
  \<^verbatim>\<open>extract_dict_from_ast(node)\<close>. A pair whose key is no constant is skipped before its
  value is looked at; a value that is neither a dictionary, a list nor a constant skips
  the pair too. Any node that is no \<^verbatim>\<open>Dict\<close> gives the empty dictionary.
\<close>

fun extract_dict_from_ast :: "expr \<Rightarrow> error + (literal \<times> pyval) list"
  and extract_items :: "(expr option \<times> expr) list \<Rightarrow> error + (literal \<times> pyval) list" where
  "extract_dict_from_ast (Dict items) =
     (case extract_items items of
        Inl e \<Rightarrow> Inl e
      | Inr pairs \<Rightarrow> Inr (dict_of pairs))"
| "extract_dict_from_ast (Constant v) = Inr []"
| "extract_dict_from_ast (List elts) = Inr []"
| "extract_dict_from_ast (Name n) = Inr []"
| "extract_dict_from_ast (Call f args kws) = Inr []"
| "extract_dict_from_ast Other = Inr []"
| "extract_items [] = Inr []"
| "extract_items ((Some (Constant key), Dict inner) # rest) =
     (case extract_dict_from_ast (Dict inner) of
        Inl e \<Rightarrow> Inl e
      | Inr d \<Rightarrow>
          (case extract_items rest of
             Inl e \<Rightarrow> Inl e
           | Inr pairs \<Rightarrow> Inr ((key, VDict d) # pairs)))"
| "extract_items ((Some (Constant key), List elts) # rest) =
     (case constant_values elts of
        Inl e \<Rightarrow> Inl e
      | Inr vs \<Rightarrow>
          (case extract_items rest of
             Inl e \<Rightarrow> Inl e
           | Inr pairs \<Rightarrow> Inr ((key, VList vs) # pairs)))"
| "extract_items ((Some (Constant key), Constant v) # rest) =
     (case extract_items rest of
        Inl e \<Rightarrow> Inl e
      | Inr pairs \<Rightarrow> Inr ((key, VConst v) # pairs))"
| "extract_items ((k, v) # rest) = extract_items rest"

text \<open>
  \<^verbatim>\<open>extract_tags(op_kwargs)\<close>, with \<open>str_node\<close> for Python's \<^verbatim>\<open>str\<close> of a node (a text
  with the node's address). Without the keyword \<^verbatim>\<open>tags\<close> is \<^verbatim>\<open>[]\<close>, which is a list and
  is returned; a value that is no \<^verbatim>\<open>ast.List\<close> is no list either and gives \<^verbatim>\<open>[]\<close>.
\<close>

definition extract_tags ::
  "(expr \<Rightarrow> string) \<Rightarrow> (string option \<Rightarrow> expr option) \<Rightarrow> string list" where
  "extract_tags str_node op_kwargs =
     (case op_kwargs (Some ''tags'') of
        None \<Rightarrow> []
      | Some (List elts) \<Rightarrow>
          map (\<lambda>elt. case elt of Constant (CStr s) \<Rightarrow> s | _ \<Rightarrow> str_node elt) elts
      | Some _ \<Rightarrow> [])"

subsection \<open>Validation\<close>

text \<open>A field declared \<^verbatim>\<open>str\<close> accepts a string and nothing else of the modelled literals.\<close>

definition str_field :: "literal \<Rightarrow> string option" where
  "str_field v = (case v of CStr s \<Rightarrow> Some s | _ \<Rightarrow> None)"

text \<open>\<^verbatim>\<open>str.upper\<close> on ASCII.\<close>

definition upper_char :: "char \<Rightarrow> char" where
  "upper_char c =
     (case map_of (zip ''abcdefghijklmnopqrstuvwxyz'' ''ABCDEFGHIJKLMNOPQRSTUVWXYZ'') c of
        None \<Rightarrow> c
      | Some u \<Rightarrow> u)"

definition upper :: "string \<Rightarrow> string" where
  "upper v = map upper_char v"

text \<open>\<^verbatim>\<open>validate_method\<close>: the method in upper case, or \<^verbatim>\<open>ValueError\<close> (here \<open>None\<close>).\<close>

definition validate_method :: "string \<Rightarrow> string option" where
  "validate_method v =
     (if upper v \<in> set [''GET'', ''POST'', ''PUT'', ''DELETE'', ''PATCH'']
      then Some (upper v) else None)"

text \<open>
  \<^verbatim>\<open>ParamModel(description=desc, name=name)\<close> for every item of \<^verbatim>\<open>params_dict\<close>; a value
  that is no string raises \<^verbatim>\<open>ValidationError\<close>.
\<close>

fun param_models :: "(literal \<times> literal) list \<Rightarrow> error + ParamModel list" where
  "param_models [] = Inr []"
| "param_models ((key, desc) # rest) =
     (case (str_field desc, str_field key) of
        (Some d, Some n) \<Rightarrow>
          (case param_models rest of
             Inl e \<Rightarrow> Inl e
           | Inr ps \<Rightarrow> Inr (\<lparr>param_description = d, param_name = n\<rparr> # ps))
      | _ \<Rightarrow> Inl (ValidationError ''ParamModel''))"

text \<open>
  \<^verbatim>\<open>OperationModel(description=..., id=..., includeAccessToken=True, method=..., name=...,
  params=..., type="custom", url=..., tags=..., parameters=...)\<close>: the validated model, or
  \<open>None\<close> for \<^verbatim>\<open>ValidationError\<close>. The model declares no field \<^verbatim>\<open>parameters\<close> and pydantic
  ignores the extra argument; \<^verbatim>\<open>schema\<close> keeps its default.
\<close>

definition new_OperationModel ::
  "literal \<Rightarrow> literal \<Rightarrow> literal \<Rightarrow> literal \<Rightarrow> ParamModel list \<Rightarrow> literal \<Rightarrow> string list \<Rightarrow>
     (literal \<times> pyval) list \<Rightarrow> OperationModel option" where
  "new_OperationModel description_arg id_arg method_arg name_arg params_arg url_arg tags_arg
     parameters_arg =
     (case (str_field description_arg, str_field id_arg, str_field method_arg,
            str_field name_arg, str_field url_arg) of
        (Some d, Some i, Some m, Some n, Some u) \<Rightarrow>
          (case validate_method m of
             None \<Rightarrow> None
           | Some m' \<Rightarrow>
               Some \<lparr>description = d, id' = i, includeAccessToken = True, method' = m',
                     name = n, tags = tags_arg, params = params_arg, type = ''custom'',
                     url = u, schema = None\<rparr>)
      | _ \<Rightarrow> None)"

subsection \<open>\<^verbatim>\<open>extract_ops_from_file\<close>\<close>

text \<open>
  Line 194, \<^verbatim>\<open>op_kwargs = {kw.arg: kw.value for kw in decorator.keywords}\<close>: the last
  keyword of a name is the one kept. \<^verbatim>\<open>"k" in op_kwargs\<close> is \<open>has_key\<close>, and
  \<^verbatim>\<open>op_kwargs["k"].s\<close> is \<open>kwarg_s\<close>.
\<close>

definition op_kwargs_of :: "(string option \<times> expr) list \<Rightarrow> (string option \<Rightarrow> expr option)" where
  "op_kwargs_of keywords = map_of (rev keywords)"

definition has_key :: "(string option \<Rightarrow> expr option) \<Rightarrow> string \<Rightarrow> bool" where
  "has_key op_kwargs k = (case op_kwargs (Some k) of None \<Rightarrow> False | Some x \<Rightarrow> True)"

definition kwarg_s :: "(string option \<Rightarrow> expr option) \<Rightarrow> string \<Rightarrow> error + literal" where
  "kwarg_s op_kwargs k =
     (case op_kwargs (Some k) of None \<Rightarrow> Inl (KeyError k) | Some x \<Rightarrow> attr_s x)"

text \<open>
  Lines 216-242: the arguments of the constructor are evaluated in the order written,
  and an \<^verbatim>\<open>AttributeError\<close> among them leaves the inner \<^verbatim>\<open>try\<close>, which catches
  \<^verbatim>\<open>ValidationError\<close> only. A \<^verbatim>\<open>ValidationError\<close> is printed and no operation is added:
  the value is \<open>Inr None\<close>. The handler prints \<^verbatim>\<open>"Parsing: " + op_kwargs["name"].s\<close>, and
  that concatenation raises \<^verbatim>\<open>TypeError\<close> when the name is no string.
\<close>

definition model_of ::
  "(expr \<Rightarrow> string) \<Rightarrow> (string option \<Rightarrow> expr option) \<Rightarrow> ParamModel list \<Rightarrow>
     (literal \<times> pyval) list \<Rightarrow> error + OperationModel option" where
  "model_of str_node op_kwargs params_arg parameters_arg =
     (case kwarg_s op_kwargs ''description'' of
        Inl e \<Rightarrow> Inl e
      | Inr d \<Rightarrow>
     (case kwarg_s op_kwargs ''name'' of
        Inl e \<Rightarrow> Inl e
      | Inr i \<Rightarrow>
     (case (if has_key op_kwargs ''method'' then kwarg_s op_kwargs ''method''
            else Inr (CStr ''POST'')) of
        Inl e \<Rightarrow> Inl e
      | Inr m \<Rightarrow>
     (case kwarg_s op_kwargs ''name'' of
        Inl e \<Rightarrow> Inl e
      | Inr n \<Rightarrow>
     (case kwarg_s op_kwargs ''path'' of
        Inl e \<Rightarrow> Inl e
      | Inr u \<Rightarrow>
          (case new_OperationModel d i m n params_arg u (extract_tags str_node op_kwargs)
                  parameters_arg of
             Some operation \<Rightarrow> Inr (Some operation)
           | None \<Rightarrow>
               (case str_field n of
                  Some s \<Rightarrow> Inr None
                | None \<Rightarrow> Inl (TypeError ''can only concatenate str to str''))))))))"

text \<open>
  Lines 201-215. \<^verbatim>\<open>extract_dict(op_kwargs["params"])\<close> is evaluated for every qualifying
  declaration, before the test \<^verbatim>\<open>if "params" in op_kwargs\<close> of the next statement: without
  the keyword the subscript raises \<^verbatim>\<open>KeyError\<close>, and with it that test is true, so its
  \<^verbatim>\<open>else []\<close> is never taken.
\<close>

definition operation_of ::
  "(expr \<Rightarrow> string) \<Rightarrow> (string option \<Rightarrow> expr option) \<Rightarrow> error + OperationModel option" where
  "operation_of str_node op_kwargs =
     (case op_kwargs (Some ''params'') of
        None \<Rightarrow> Inl (KeyError ''params'')
      | Some params_node \<Rightarrow>
     (case extract_dict params_node of
        Inl e \<Rightarrow> Inl e
      | Inr params_dict \<Rightarrow>
     (case param_models params_dict of
        Inl e \<Rightarrow> Inl e
      | Inr params_list \<Rightarrow>
     (case extract_dict_from_ast
             (case op_kwargs (Some ''parameters'') of None \<Rightarrow> Dict [] | Some p \<Rightarrow> p) of
        Inl e \<Rightarrow> Inl e
      | Inr parameters \<Rightarrow> model_of str_node op_kwargs params_list parameters))))"

text \<open>Lines 195-200, the test that makes a declaration a candidate.\<close>

definition qualifies :: "(string option \<Rightarrow> expr option) \<Rightarrow> bool" where
  "qualifies op_kwargs =
     (has_key op_kwargs ''path'' \<and> has_key op_kwargs ''name'' \<and>
      has_key op_kwargs ''description'' \<and>
      (has_key op_kwargs ''params'' \<or> has_key op_kwargs ''parameters''))"

text \<open>
  Lines 190-242, the body of \<^verbatim>\<open>for decorator in node.decorator_list\<close>: the operation the
  decorator adds to \<^verbatim>\<open>ops_found\<close>, if any, or the exception it raises. Only a \<^verbatim>\<open>Name\<close>
  has an \<^verbatim>\<open>id\<close>, so the marker is a call of the plain name \<^verbatim>\<open>op\<close> or \<^verbatim>\<open>vop\<close>.
\<close>

definition decorator_op :: "(expr \<Rightarrow> string) \<Rightarrow> expr \<Rightarrow> error + OperationModel option" where
  "decorator_op str_node decorator =
     (case decorator of
        Call func args keywords \<Rightarrow>
          if func = Name ''op'' \<or> func = Name ''vop'' then
            if qualifies (op_kwargs_of keywords)
            then operation_of str_node (op_kwargs_of keywords)
            else Inr None
          else Inr None
      | _ \<Rightarrow> Inr None)"

text \<open>
  The loop over the decorators of one function. The \<^verbatim>\<open>try\<close> of line 187 is around the
  whole loop: an exception ends it, the operations already appended stay, the later
  decorators of that function are not looked at.
\<close>

fun decorators_ops :: "(expr \<Rightarrow> string) \<Rightarrow> expr list \<Rightarrow> OperationModel list" where
  "decorators_ops str_node [] = []"
| "decorators_ops str_node (decorator # rest) =
     (case decorator_op str_node decorator of
        Inl e \<Rightarrow> []
      | Inr None \<Rightarrow> decorators_ops str_node rest
      | Inr (Some operation) \<Rightarrow> operation # decorators_ops str_node rest)"

definition node_ops :: "(expr \<Rightarrow> string) \<Rightarrow> node \<Rightarrow> OperationModel list" where
  "node_ops str_node n =
     (case n of
        FunctionDef fname decorator_list \<Rightarrow> decorators_ops str_node decorator_list
      | OtherNode \<Rightarrow> [])"

text \<open>
  \<^verbatim>\<open>extract_ops_from_file(file_path)\<close>. \<open>walked\<close> is what reading and parsing the file
  gives: the nodes \<^verbatim>\<open>ast.walk(ast.parse(content))\<close> yields, or the exception of \<^verbatim>\<open>open\<close>,
  \<^verbatim>\<open>read\<close> or \<^verbatim>\<open>ast.parse\<close>, for which the file is skipped.
\<close>

definition extract_ops_from_file ::
  "(expr \<Rightarrow> string) \<Rightarrow> error + node list \<Rightarrow> OperationModel list" where
  "extract_ops_from_file str_node walked =
     (case walked of
        Inl e \<Rightarrow> []
      | Inr nodes \<Rightarrow> concat (map (node_ops str_node) nodes))"

text \<open>\<^verbatim>\<open>scan_ops(path)\<close> over the files \<^verbatim>\<open>find_python_files\<close> lists.\<close>

definition scan_ops :: "(expr \<Rightarrow> string) \<Rightarrow> (error + node list) list \<Rightarrow> OperationModel list" where
  "scan_ops str_node files = concat (map (extract_ops_from_file str_node) files)"

subsection \<open>Example declarations\<close>

text \<open>A rendering of nodes that are no string constants.\<close>

definition node_text :: "expr \<Rightarrow> string" where
  "node_text e = ''<ast node>''"

text \<open>
  \<^verbatim>\<open>@op(path="/echo", name="Echo", description="d", params={})\<close>, and the same marker with
  a nested \<^verbatim>\<open>parameters={"type": "object"}\<close> in the place of \<^verbatim>\<open>params\<close>.
\<close>

definition echo_keywords :: "(string option \<times> expr) list" where
  "echo_keywords =
     [(Some ''path'', Constant (CStr ''/echo'')),
      (Some ''name'', Constant (CStr ''Echo'')),
      (Some ''description'', Constant (CStr ''d'')),
      (Some ''params'', Dict [])]"

definition echo_decl :: expr where
  "echo_decl = Call (Name ''op'') [] echo_keywords"

definition nested_keywords :: "(string option \<times> expr) list" where
  "nested_keywords =
     [(Some ''path'', Constant (CStr ''/echo'')),
      (Some ''name'', Constant (CStr ''Echo'')),
      (Some ''description'', Constant (CStr ''d'')),
      (Some ''parameters'',
         Dict [(Some (Constant (CStr ''type'')), Constant (CStr ''object''))])]"

definition nested_decl :: expr where
  "nested_decl = Call (Name ''op'') [] nested_keywords"

text \<open>A second declaration with the name of the first and another path.\<close>

definition echo_decl2 :: expr where
  "echo_decl2 =
     Call (Name ''vop'') []
       [(Some ''path'', Constant (CStr ''/echo/v2'')),
        (Some ''name'', Constant (CStr ''Echo'')),
        (Some ''description'', Constant (CStr ''second'')),
        (Some ''tags'', List [Constant (CStr ''default'')]),
        (Some ''method'', Constant (CStr ''get'')),
        (Some ''params'', Dict [(Some (Constant (CStr ''text'')), Constant (CStr ''what to echo''))])]"

definition scanned :: OperationModel where
  "scanned =
     \<lparr>description = ''d'', id' = ''Echo'', includeAccessToken = True, method' = ''POST'',
      name = ''Echo'', tags = [], params = [], type = ''custom'', url = ''/echo'',
      schema = None\<rparr>"

definition scanned2 :: OperationModel where
  "scanned2 =
     \<lparr>description = ''second'', id' = ''Echo'', includeAccessToken = True, method' = ''GET'',
      name = ''Echo'', tags = [''default''],
      params = [\<lparr>param_description = ''what to echo'', param_name = ''text''\<rparr>],
      type = ''custom'', url = ''/echo/v2'', schema = None\<rparr>"

section \<open>Properties of the service's upsert\<close>

lemma upsert_ops_member: "upsert_ops op xs = Inr ys \<Longrightarrow> op \<in> set ys"
  by (induction xs arbitrary: ys) (auto split: option.splits if_splits sum.splits)

lemma upsert_ops_again:
  "upsert_ops op xs = Inr ys \<Longrightarrow> upsert_ops op ys = Inr ys' \<Longrightarrow> ys' = ys"
  by (induction xs arbitrary: ys ys') (auto split: option.splits if_splits sum.splits)

lemma write_tag_failed: "write_tag user op tag tbl = (Inl e, tbl') \<Longrightarrow> tbl' = tbl"
  by (auto simp: write_tag_def split: option.splits sum.splits)

lemma write_tag_other:
  "write_tag user op tag tbl = (r, tbl') \<Longrightarrow> k \<noteq> (user, tag) \<Longrightarrow> tbl' k = tbl k"
  by (auto simp: write_tag_def split: option.splits sum.splits)

lemma write_tag_present:
  "write_tag user op tag tbl = (Inr u, tbl') \<Longrightarrow>
     \<exists>xs. tbl' (user, tag) = Some (Some xs) \<and> op \<in> set xs"
  by (auto simp: write_tag_def split: option.splits sum.splits dest: upsert_ops_member)

lemma stable_iff:
  "stable user op tag tbl =
     (case tbl (user, tag) of
        None \<Rightarrow> False
      | Some None \<Rightarrow> True
      | Some (Some xs) \<Rightarrow> (case upsert_ops op xs of Inl e \<Rightarrow> True | Inr ys \<Rightarrow> ys = xs))"
proof (cases "tbl (user, tag)")
  case None
  then have "snd (write_tag user op tag tbl) (user, tag) \<noteq> tbl (user, tag)"
    by (simp add: write_tag_def)
  then show ?thesis using None by (auto simp: stable_def)
next
  case (Some item)
  show ?thesis
  proof (cases item)
    case None
    then show ?thesis using Some by (simp add: stable_def write_tag_def)
  next
    case (Some xs)
    note xs = this
    show ?thesis
    proof (cases "upsert_ops op xs")
      case (Inl e)
      then show ?thesis using \<open>tbl (user, tag) = Some item\<close> xs
        by (simp add: stable_def write_tag_def)
    next
      case (Inr ys)
      have "(tbl((user, tag) \<mapsto> Some ys) = tbl) = (ys = xs)"
      proof
        assume "tbl((user, tag) \<mapsto> Some ys) = tbl"
        then have "(tbl((user, tag) \<mapsto> Some ys)) (user, tag) = tbl (user, tag)" by simp
        then show "ys = xs" using \<open>tbl (user, tag) = Some item\<close> xs by simp
      next
        assume "ys = xs"
        then show "tbl((user, tag) \<mapsto> Some ys) = tbl"
          using \<open>tbl (user, tag) = Some item\<close> xs by (simp add: map_upd_triv)
      qed
      then show ?thesis using \<open>tbl (user, tag) = Some item\<close> xs Inr
        by (simp add: stable_def write_tag_def)
    qed
  qed
qed

lemma stable_after:
  assumes "write_tag user op tag tbl = (Inr u, tbl')"
  shows "stable user op tag tbl'"
  using assms unfolding stable_iff
  by (auto simp: write_tag_def split: option.splits sum.splits if_splits
      dest: upsert_ops_again)

lemma stable_step:
  assumes "stable user op tag tbl" and "write_tag user op tag' tbl = (r, tbl')"
  shows "stable user op tag tbl'"
proof (cases "tag' = tag")
  case True
  then show ?thesis using assms by (simp add: stable_def)
next
  case False
  then have "tbl' (user, tag) = tbl (user, tag)"
    using write_tag_other [OF assms(2), of "(user, tag)"] by simp
  then show ?thesis using assms(1) by (simp add: stable_iff)
qed

lemma stable_write_tags:
  "stable user op tag tbl \<Longrightarrow> write_tags user op ts tbl = (r, tbl') \<Longrightarrow>
     stable user op tag tbl'"
proof (induction ts arbitrary: tbl)
  case Nil
  then show ?case by simp
next
  case (Cons t ts)
  obtain r0 tbl0 where step: "write_tag user op t tbl = (r0, tbl0)"
    by (cases "write_tag user op t tbl")
  have st: "stable user op tag tbl0" using stable_step [OF Cons.prems(1) step] .
  show ?case
  proof (cases r0)
    case (Inl e)
    then show ?thesis using Cons.prems(2) step st by simp
  next
    case (Inr u)
    then show ?thesis using Cons.prems(2) step Cons.IH [OF st] by simp
  qed
qed

lemma write_tags_twice:
  "write_tags user op ts tbl = (r, tbl1) \<Longrightarrow> snd (write_tags user op ts tbl1) = tbl1"
proof (induction ts arbitrary: tbl)
  case Nil
  then show ?case by simp
next
  case (Cons t ts)
  obtain r0 tbl0 where step: "write_tag user op t tbl = (r0, tbl0)"
    by (cases "write_tag user op t tbl")
  show ?case
  proof (cases r0)
    case (Inl e)
    then have "tbl0 = tbl" using step write_tag_failed by blast
    then have "tbl1 = tbl" using Cons.prems step Inl by simp
    then show ?thesis using step Inl \<open>tbl0 = tbl\<close> by simp
  next
    case (Inr u)
    then have rest: "write_tags user op ts tbl0 = (r, tbl1)" using Cons.prems step by simp
    have "stable user op t tbl0" using stable_after step Inr by blast
    then have "stable user op t tbl1" using stable_write_tags rest by blast
    then obtain r1 where again: "write_tag user op t tbl1 = (r1, tbl1)"
      by (cases "write_tag user op t tbl1") (simp add: stable_def)
    show ?thesis
    proof (cases r1)
      case (Inl e)
      then show ?thesis using again by simp
    next
      case (Inr u')
      then show ?thesis using again Cons.IH [OF rest] by simp
    qed
  qed
qed

lemma write_each_single: "snd (write_each user [op] tbl) = snd (write_op user op tbl)"
  by (cases "write_op user op tbl") (auto split: sum.splits)

lemma write_ops_single:
  "snd (write_ops table_name current_user [op] tbl) =
     (if table_name = None \<or> table_name = Some [] then tbl
      else snd (write_op ''system'' op tbl))"
  by (cases "write_op ''system'' op tbl") (auto simp: write_ops_def split: sum.splits)

text \<open>
  C3. Upserting the same record a second time leaves every partition as the first upsert
  left it, for every caller, record and starting table, also when a call raises.
\<close>

theorem upsert_twice_same_table:
  "snd (write_ops table_name current_user [op]
          (snd (write_ops table_name current_user [op] tbl))) =
   snd (write_ops table_name current_user [op] tbl)"
proof (cases "table_name = None \<or> table_name = Some []")
  case True
  then show ?thesis by (simp add: write_ops_single)
next
  case False
  obtain r tbl1 where w: "write_op ''system'' op tbl = (r, tbl1)"
    by (cases "write_op ''system'' op tbl")
  then have "snd (write_op ''system'' op tbl1) = tbl1"
    unfolding write_op_def by (rule write_tags_twice)
  then show ?thesis using False w by (simp add: write_ops_single)
qed

section \<open>Discoverability after an upsert\<close>

lemma write_tag_present':
  "write_tag user op tag tbl = (Inr u, tbl') \<Longrightarrow> present user op tag tbl'"
  using write_tag_present [of user op tag tbl u tbl'] by (auto simp: present_def)

lemma write_tag_keeps:
  assumes "present user op tag tbl" and "write_tag user op tag' tbl = (r, tbl')"
  shows "present user op tag tbl'"
proof (cases "tag' = tag")
  case False
  then show ?thesis
    using assms write_tag_other [OF assms(2), of "(user, tag)"] by (simp add: present_def)
next
  case True
  show ?thesis
  proof (cases r)
    case (Inl e)
    then show ?thesis using assms write_tag_failed by blast
  next
    case (Inr u)
    then show ?thesis using assms(2) True write_tag_present' by blast
  qed
qed

lemma write_tags_keeps:
  "present user op tag tbl \<Longrightarrow> write_tags user op ts tbl = (r, tbl') \<Longrightarrow>
   present user op tag tbl'"
proof (induction ts arbitrary: tbl)
  case Nil
  then show ?case by simp
next
  case (Cons t ts)
  obtain r0 tbl0 where step: "write_tag user op t tbl = (r0, tbl0)"
    by (cases "write_tag user op t tbl")
  have keep: "present user op tag tbl0"
    using write_tag_keeps [OF Cons.prems(1) step] .
  show ?case
  proof (cases r0)
    case (Inl e)
    then show ?thesis using Cons.prems(2) step keep by simp
  next
    case (Inr u)
    then show ?thesis using Cons.prems(2) step Cons.IH [OF keep] by simp
  qed
qed

lemma write_tags_present:
  "write_tags user op ts tbl = (Inr u, tbl') \<Longrightarrow> tag \<in> set ts \<Longrightarrow>
   present user op tag tbl'"
proof (induction ts arbitrary: tbl)
  case Nil
  then show ?case by simp
next
  case (Cons t ts)
  obtain r0 tbl0 where step: "write_tag user op t tbl = (r0, tbl0)"
    by (cases "write_tag user op t tbl")
  then obtain u0 where r0: "r0 = Inr u0" and rest: "write_tags user op ts tbl0 = (Inr u, tbl')"
    using Cons.prems(1) by (cases r0) auto
  show ?case
  proof (cases "tag = t")
    case True
    have "present user op tag tbl0"
      using step r0 True write_tag_present' by blast
    then show ?thesis using write_tags_keeps rest by blast
  next
    case False
    then have "tag \<in> set ts" using Cons.prems(2) by simp
    then show ?thesis using Cons.IH [OF rest] by simp
  qed
qed

lemma write_ops_success:
  "write_ops table_name current_user [op] tbl = (Inr associated, tbl') \<Longrightarrow>
   write_op ''system'' op tbl = (Inr (), tbl')"
  by (cases "write_op ''system'' op tbl")
     (auto simp: write_ops_def associated_def table_not_set_def split: if_splits sum.splits)

lemma upsert_ops_cli_member: "upsert_ops_cli op xs = Inr ys \<Longrightarrow> op \<in> set ys"
  by (induction xs arbitrary: ys) (auto split: option.splits if_splits sum.splits)

lemma write_tag_cli_failed: "write_tag_cli user op tag tbl = (Inl e, tbl') \<Longrightarrow> tbl' = tbl"
  by (auto simp: write_tag_cli_def split: option.splits sum.splits)

lemma write_tag_cli_other:
  "write_tag_cli user op tag tbl = (r, tbl') \<Longrightarrow> k \<noteq> (user, tag) \<Longrightarrow> tbl' k = tbl k"
  by (auto simp: write_tag_cli_def split: option.splits sum.splits)

lemma write_tag_cli_present:
  "write_tag_cli user op tag tbl = (Inr u, tbl') \<Longrightarrow> present user op tag tbl'"
  by (auto simp: write_tag_cli_def present_def split: option.splits sum.splits
      dest: upsert_ops_cli_member)

lemma write_tag_cli_keeps:
  assumes "present user op tag tbl" and "write_tag_cli user op tag' tbl = (r, tbl')"
  shows "present user op tag tbl'"
proof (cases "tag' = tag")
  case False
  then show ?thesis
    using assms write_tag_cli_other [OF assms(2), of "(user, tag)"] by (simp add: present_def)
next
  case True
  show ?thesis
  proof (cases r)
    case (Inl e)
    then show ?thesis using assms write_tag_cli_failed by blast
  next
    case (Inr u)
    then show ?thesis using assms(2) True write_tag_cli_present by blast
  qed
qed

lemma write_tags_cli_keeps:
  "present user op tag tbl \<Longrightarrow> write_tags_cli user op ts tbl = (r, tbl') \<Longrightarrow>
   present user op tag tbl'"
proof (induction ts arbitrary: tbl)
  case Nil
  then show ?case by simp
next
  case (Cons t ts)
  obtain r0 tbl0 where step: "write_tag_cli user op t tbl = (r0, tbl0)"
    by (cases "write_tag_cli user op t tbl")
  have keep: "present user op tag tbl0"
    using write_tag_cli_keeps [OF Cons.prems(1) step] .
  show ?case
  proof (cases r0)
    case (Inl e)
    then show ?thesis using Cons.prems(2) step keep by simp
  next
    case (Inr u)
    then show ?thesis using Cons.prems(2) step Cons.IH [OF keep] by simp
  qed
qed

lemma write_tags_cli_present:
  "write_tags_cli user op ts tbl = (Inr u, tbl') \<Longrightarrow> tag \<in> set ts \<Longrightarrow>
   present user op tag tbl'"
proof (induction ts arbitrary: tbl)
  case Nil
  then show ?case by simp
next
  case (Cons t ts)
  obtain r0 tbl0 where step: "write_tag_cli user op t tbl = (r0, tbl0)"
    by (cases "write_tag_cli user op t tbl")
  then obtain u0 where r0: "r0 = Inr u0"
    and rest: "write_tags_cli user op ts tbl0 = (Inr u, tbl')"
    using Cons.prems(1) by (cases r0) auto
  show ?case
  proof (cases "tag = t")
    case True
    have "present user op tag tbl0"
      using step r0 True write_tag_cli_present by blast
    then show ?thesis using write_tags_cli_keeps rest by blast
  next
    case False
    then have "tag \<in> set ts" using Cons.prems(2) by simp
    then show ?thesis using Cons.IH [OF rest] by simp
  qed
qed

lemma write_ops_cli_success:
  "write_ops_cli table_name owner tags_arg (Some [m]) tbl = (Inr associated, tbl') \<Longrightarrow>
   write_op_cli owner m tbl = (Inr (), tbl')"
  by (cases "write_op_cli owner m tbl")
     (auto simp: write_ops_cli_def associated_def table_not_set_def
           split: if_splits sum.splits)

text \<open>
  Whenever an upsert of one record returns its success result, the record is present in
  the partition of each of its tags and of \<^verbatim>\<open>"all"\<close>.
\<close>

lemma upsert_success_present:
  "(write_ops table_name current_user [op] tbl = (Inr associated, tbl') \<and>
    op_tags op = Some ts \<longrightarrow>
      (\<forall>tag \<in> set ts \<union> {''all''}.
         present ''system''
           (op\<lparr>op_tags := Some (ts @ [''all'']), op_tag := None,
               op_includeAccessToken := Some True\<rparr>) tag tbl')) \<and>
   (write_ops_cli table_name owner tags_arg (Some [m]) tbl = (Inr associated, tbl'') \<longrightarrow>
      (\<forall>tag \<in> set (tags m) \<union> {''all''}.
         present owner ((model_dump m)\<lparr>op_tags := Some (tags m @ [''all''])\<rparr>) tag tbl''))"
proof (intro conjI impI ballI)
  fix tag
  assume a: "write_ops table_name current_user [op] tbl = (Inr associated, tbl') \<and>
    op_tags op = Some ts" and t: "tag \<in> set ts \<union> {''all''}"
  have p: "prepared op = op\<lparr>op_tags := Some (ts @ [''all'']), op_tag := None,
               op_includeAccessToken := Some True\<rparr>"
    using a by (simp add: prepared_def append_all_def)
  have "write_tags ''system'' (prepared op) (ts @ [''all'']) tbl = (Inr (), tbl')"
    using a write_ops_success [of table_name current_user op tbl tbl']
    by (simp add: write_op_def operation_tags_def)
  then have "present ''system'' (prepared op) tag tbl'"
    using t write_tags_present [of "''system''" "prepared op" "ts @ [''all'']" tbl "()" tbl' tag]
    by auto
  then show "present ''system''
           (op\<lparr>op_tags := Some (ts @ [''all'']), op_tag := None,
               op_includeAccessToken := Some True\<rparr>) tag tbl'"
    using p by simp
next
  fix tag
  assume a: "write_ops_cli table_name owner tags_arg (Some [m]) tbl = (Inr associated, tbl'')"
    and t: "tag \<in> set (tags m) \<union> {''all''}"
  have p: "append_all (model_dump m) = (model_dump m)\<lparr>op_tags := Some (tags m @ [''all''])\<rparr>"
    by (simp add: append_all_def model_dump_def)
  have "write_tags_cli owner (append_all (model_dump m)) (tags m @ [''all'']) tbl
          = (Inr (), tbl'')"
    using write_ops_cli_success [OF a]
    by (simp add: write_op_cli_def operation_tags_def model_dump_def)
  then have "present owner (append_all (model_dump m)) tag tbl''"
    using t write_tags_cli_present
      [of owner "append_all (model_dump m)" "tags m @ [''all'']" tbl "()" tbl'' tag]
    by auto
  then show "present owner ((model_dump m)\<lparr>op_tags := Some (tags m @ [''all''])\<rparr>) tag tbl''"
    using p by simp
qed


lemma upsert_ops_total:
  "op_id op = Some i \<Longrightarrow>
   list_all (\<lambda>e. case op_id e of None \<Rightarrow> False | Some j \<Rightarrow> True) xs \<Longrightarrow>
   \<exists>ys. upsert_ops op xs = Inr ys \<and>
     list_all (\<lambda>e. case op_id e of None \<Rightarrow> False | Some j \<Rightarrow> True) ys"
  by (induction xs) (auto split: option.splits)

lemma write_tag_total:
  assumes "op_id op = Some i" and "with_ids tbl user tag"
  shows "\<exists>tbl'. write_tag user op tag tbl = (Inr (), tbl') \<and>
     (\<forall>t. with_ids tbl user t \<longrightarrow> with_ids tbl' user t)"
proof (cases "tbl (user, tag)")
  case None
  then show ?thesis using assms(1) by (auto simp: write_tag_def with_ids_def)
next
  case (Some item)
  then obtain xs where xs: "tbl (user, tag) = Some (Some xs)"
    and ids: "list_all (\<lambda>e. case op_id e of None \<Rightarrow> False | Some j \<Rightarrow> True) xs"
    using assms(2) by (cases item) (auto simp: with_ids_def)
  obtain ys where ys: "upsert_ops op xs = Inr ys"
    and ids': "list_all (\<lambda>e. case op_id e of None \<Rightarrow> False | Some j \<Rightarrow> True) ys"
    using upsert_ops_total [OF assms(1) ids] by blast
  show ?thesis using xs ys ids' by (auto simp: write_tag_def with_ids_def)
qed

lemma write_tags_total:
  "op_id op = Some i \<Longrightarrow> \<forall>t \<in> set ts. with_ids tbl user t \<Longrightarrow>
   \<exists>tbl'. write_tags user op ts tbl = (Inr (), tbl')"
proof (induction ts arbitrary: tbl)
  case Nil
  then show ?case by simp
next
  case (Cons t ts)
  obtain tbl0 where step: "write_tag user op t tbl = (Inr (), tbl0)"
    and keep: "\<forall>s. with_ids tbl user s \<longrightarrow> with_ids tbl0 user s"
    using write_tag_total [OF Cons.prems(1), of tbl user t] Cons.prems(2) by auto
  have "\<forall>s \<in> set ts. with_ids tbl0 user s" using keep Cons.prems(2) by simp
  then obtain tbl' where "write_tags user op ts tbl0 = (Inr (), tbl')"
    using Cons.IH [OF Cons.prems(1)] by blast
  then show ?case using step by simp
qed

lemma upsert_ops_cli_total:
  "op_id op = Some i \<Longrightarrow>
   list_all (\<lambda>e. case op_id e of None \<Rightarrow> False
                  | Some j \<Rightarrow> (if j = i then False else True)) xs \<Longrightarrow>
   upsert_ops_cli op xs = Inr (xs @ [op])"
  by (induction xs) (auto split: option.splits if_splits)

lemma write_tag_cli_total:
  assumes "op_id op = Some i" and "without_id tbl user tag i"
  shows "\<exists>tbl'. write_tag_cli user op tag tbl = (Inr (), tbl') \<and>
     (\<forall>t. t \<noteq> tag \<longrightarrow> tbl' (user, t) = tbl (user, t))"
proof (cases "tbl (user, tag)")
  case None
  then show ?thesis by (auto simp: write_tag_cli_def)
next
  case (Some item)
  then obtain xs where xs: "tbl (user, tag) = Some (Some xs)"
    and ids: "list_all (\<lambda>e. case op_id e of None \<Rightarrow> False
                  | Some j \<Rightarrow> (if j = i then False else True)) xs"
    using assms(2) by (cases item) (auto simp: without_id_def)
  show ?thesis
    using xs upsert_ops_cli_total [OF assms(1) ids] by (auto simp: write_tag_cli_def)
qed

lemma write_tags_cli_total:
  "op_id op = Some i \<Longrightarrow> distinct ts \<Longrightarrow> \<forall>t \<in> set ts. without_id tbl user t i \<Longrightarrow>
   \<exists>tbl'. write_tags_cli user op ts tbl = (Inr (), tbl')"
proof (induction ts arbitrary: tbl)
  case Nil
  then show ?case by simp
next
  case (Cons t ts)
  obtain tbl0 where step: "write_tag_cli user op t tbl = (Inr (), tbl0)"
    and keep: "\<forall>s. s \<noteq> t \<longrightarrow> tbl0 (user, s) = tbl (user, s)"
    using write_tag_cli_total [OF Cons.prems(1), of tbl user t] Cons.prems(3) by auto
  have "\<forall>s \<in> set ts. without_id tbl0 user s i"
  proof
    fix s assume s: "s \<in> set ts"
    then have "s \<noteq> t" using Cons.prems(2) by auto
    then have "tbl0 (user, s) = tbl (user, s)" using keep by simp
    then show "without_id tbl0 user s i" using Cons.prems(3) s by (simp add: without_id_def)
  qed
  moreover have "distinct ts" using Cons.prems(2) by simp
  ultimately obtain tbl' where "write_tags_cli user op ts tbl0 = (Inr (), tbl')"
    using Cons.IH [OF Cons.prems(1)] by blast
  then show ?case using step by simp
qed

text \<open>
  On a table fit for it the upsert of one record does return its success result, and the
  record is then present.
\<close>

lemma upsert_returns_present:
  "(table_name = Some tn \<and> tn \<noteq> [] \<and> op_id op = Some i \<and> op_tags op = Some ts \<and>
    (\<forall>tag \<in> set ts \<union> {''all''}. with_ids tbl ''system'' tag) \<longrightarrow>
      (\<exists>tbl'. write_ops table_name current_user [op] tbl = (Inr associated, tbl') \<and>
         (\<forall>tag \<in> set ts \<union> {''all''}.
            present ''system''
              (op\<lparr>op_tags := Some (ts @ [''all'']), op_tag := None,
                  op_includeAccessToken := Some True\<rparr>) tag tbl'))) \<and>
   (table_name = Some tn \<and> tn \<noteq> [] \<and> distinct (tags m @ [''all'']) \<and>
    (\<forall>tag \<in> set (tags m) \<union> {''all''}. without_id tbl owner tag (id' m)) \<longrightarrow>
      (\<exists>tbl'. write_ops_cli table_name owner tags_arg (Some [m]) tbl = (Inr associated, tbl') \<and>
         (\<forall>tag \<in> set (tags m) \<union> {''all''}.
            present owner ((model_dump m)\<lparr>op_tags := Some (tags m @ [''all''])\<rparr>) tag tbl')))"
proof (intro conjI impI)
  assume a: "table_name = Some tn \<and> tn \<noteq> [] \<and> op_id op = Some i \<and> op_tags op = Some ts \<and>
    (\<forall>tag \<in> set ts \<union> {''all''}. with_ids tbl ''system'' tag)"
  have id: "op_id (prepared op) = Some i"
    using a by (simp add: prepared_def append_all_def)
  have "\<forall>t \<in> set (ts @ [''all'']). with_ids tbl ''system'' t" using a by auto
  then obtain tbl' where w: "write_tags ''system'' (prepared op) (ts @ [''all'']) tbl = (Inr (), tbl')"
    using write_tags_total [OF id] by blast
  then have "write_ops table_name current_user [op] tbl = (Inr associated, tbl')"
    using a by (simp add: write_ops_def write_op_def operation_tags_def)
  moreover have "\<forall>tag \<in> set ts \<union> {''all''}.
            present ''system''
              (op\<lparr>op_tags := Some (ts @ [''all'']), op_tag := None,
                  op_includeAccessToken := Some True\<rparr>) tag tbl'"
    using upsert_success_present [THEN conjunct1, THEN mp, OF conjI, OF calculation] a
    by blast
  ultimately show "\<exists>tbl'. write_ops table_name current_user [op] tbl = (Inr associated, tbl') \<and>
         (\<forall>tag \<in> set ts \<union> {''all''}.
            present ''system''
              (op\<lparr>op_tags := Some (ts @ [''all'']), op_tag := None,
                  op_includeAccessToken := Some True\<rparr>) tag tbl')"
    by blast
next
  assume a: "table_name = Some tn \<and> tn \<noteq> [] \<and> distinct (tags m @ [''all'']) \<and>
    (\<forall>tag \<in> set (tags m) \<union> {''all''}. without_id tbl owner tag (id' m))"
  have id: "op_id (append_all (model_dump m)) = Some (id' m)"
    by (simp add: append_all_def model_dump_def)
  have "\<forall>t \<in> set (tags m @ [''all'']). without_id tbl owner t (id' m)" using a by auto
  then obtain tbl' where
    w: "write_tags_cli owner (append_all (model_dump m)) (tags m @ [''all'']) tbl = (Inr (), tbl')"
    using write_tags_cli_total [OF id] a by blast
  then have "write_ops_cli table_name owner tags_arg (Some [m]) tbl = (Inr associated, tbl')"
    using a by (simp add: write_ops_cli_def write_op_cli_def operation_tags_def model_dump_def)
  moreover have "\<forall>tag \<in> set (tags m) \<union> {''all''}.
            present owner ((model_dump m)\<lparr>op_tags := Some (tags m @ [''all''])\<rparr>) tag tbl'"
    using upsert_success_present [THEN conjunct2, THEN mp, OF calculation] .
  ultimately show "\<exists>tbl'. write_ops_cli table_name owner tags_arg (Some [m]) tbl = (Inr associated, tbl') \<and>
         (\<forall>tag \<in> set (tags m) \<union> {''all''}.
            present owner ((model_dump m)\<lparr>op_tags := Some (tags m @ [''all''])\<rparr>) tag tbl')"
    by blast
qed

text \<open>
  C1, as the code has it. Whenever the service's \<^verbatim>\<open>write_ops\<close> returns its success result
  for a record with declared tags \<open>ts\<close>, whoever calls it, the record is present in the
  partition of \<^verbatim>\<open>"system"\<close> for every tag of \<open>ts\<close> and for \<^verbatim>\<open>"all"\<close>; whenever the tool's
  \<^verbatim>\<open>write_ops\<close> returns its success result, the record is present in the partition of the
  owner it is called with for every tag and for \<^verbatim>\<open>"all"\<close>. And they do return it. Let the
  table name be set. For a record with an id and with
  declared tags \<open>ts\<close>, on a table whose partitions of \<^verbatim>\<open>"system"\<close> for \<open>ts\<close> and \<^verbatim>\<open>"all"\<close>
  hold only entries with an id, the service's \<^verbatim>\<open>write_ops\<close> returns its success result,
  whoever calls it, and the record is then present in the partition of \<^verbatim>\<open>"system"\<close> for
  every tag of \<open>ts\<close> and for \<^verbatim>\<open>"all"\<close>. For a model whose tags are distinct and without
  \<^verbatim>\<open>"all"\<close>, on a table whose partitions of the owner for these tags hold only entries with
  other ids, the tool's \<^verbatim>\<open>write_ops\<close> returns its success result and the record is then
  present in the partition of that owner for every tag and for \<^verbatim>\<open>"all"\<close>. The entry stored
  is the record as the call leaves it: its id and its other fields unchanged, \<^verbatim>\<open>"all"\<close>
  appended to its tags, and for the service \<^verbatim>\<open>includeAccessToken\<close> set and the key \<^verbatim>\<open>tag\<close>
  removed.
\<close>

theorem upsert_discoverable:
  "((write_ops table_name current_user [op] tbl = (Inr associated, tbl') \<and>
    op_tags op = Some ts \<longrightarrow>
      (\<forall>tag \<in> set ts \<union> {''all''}.
         present ''system''
           (op\<lparr>op_tags := Some (ts @ [''all'']), op_tag := None,
               op_includeAccessToken := Some True\<rparr>) tag tbl')) \<and>
   (write_ops_cli table_name owner tags_arg (Some [m]) tbl = (Inr associated, tbl'') \<longrightarrow>
      (\<forall>tag \<in> set (tags m) \<union> {''all''}.
         present owner ((model_dump m)\<lparr>op_tags := Some (tags m @ [''all''])\<rparr>) tag tbl''))) \<and>
   ((table_name = Some tn \<and> tn \<noteq> [] \<and> op_id op = Some i \<and> op_tags op = Some ts \<and>
    (\<forall>tag \<in> set ts \<union> {''all''}. with_ids tbl ''system'' tag) \<longrightarrow>
      (\<exists>tbl'. write_ops table_name current_user [op] tbl = (Inr associated, tbl') \<and>
         (\<forall>tag \<in> set ts \<union> {''all''}.
            present ''system''
              (op\<lparr>op_tags := Some (ts @ [''all'']), op_tag := None,
                  op_includeAccessToken := Some True\<rparr>) tag tbl'))) \<and>
   (table_name = Some tn \<and> tn \<noteq> [] \<and> distinct (tags m @ [''all'']) \<and>
    (\<forall>tag \<in> set (tags m) \<union> {''all''}. without_id tbl owner tag (id' m)) \<longrightarrow>
      (\<exists>tbl'. write_ops_cli table_name owner tags_arg (Some [m]) tbl = (Inr associated, tbl') \<and>
         (\<forall>tag \<in> set (tags m) \<union> {''all''}.
            present owner ((model_dump m)\<lparr>op_tags := Some (tags m @ [''all''])\<rparr>) tag tbl'))))"
  by (rule conjI [OF upsert_success_present upsert_returns_present])

theorem upsert_discoverable_witness:
  "op_id echo_op = Some ''op1'' \<and> op_tags echo_op = Some [''default''] \<and>
   with_ids stocked ''system'' ''default'' \<and> with_ids stocked ''system'' ''all'' \<and>
   records stocked ''system'' ''default'' = [other_op, moved_op] \<and>
   records stocked ''system'' ''all'' = [other_op] \<and>
   fst (write_ops (Some ''ops'') ''alice'' [echo_op] stocked) = Inr associated \<and>
   records (snd (write_ops (Some ''ops'') ''alice'' [echo_op] stocked)) ''system'' ''default'' =
     [other_op, echo_op\<lparr>op_tags := Some [''default'', ''all''], op_tag := None,
                          op_includeAccessToken := Some True\<rparr>] \<and>
   records (snd (write_ops (Some ''ops'') ''alice'' [echo_op] stocked)) ''system'' ''all'' =
     [other_op, echo_op\<lparr>op_tags := Some [''default'', ''all''], op_tag := None,
                          op_includeAccessToken := Some True\<rparr>] \<and>
   present ''system''
     (echo_op\<lparr>op_tags := Some [''default'', ''all''], op_tag := None,
              op_includeAccessToken := Some True\<rparr>) ''default''
     (snd (write_ops (Some ''ops'') ''alice'' [echo_op] stocked)) \<and>
   present ''system''
     (echo_op\<lparr>op_tags := Some [''default'', ''all''], op_tag := None,
              op_includeAccessToken := Some True\<rparr>) ''all''
     (snd (write_ops (Some ''ops'') ''alice'' [echo_op] stocked)) \<and>
   distinct (tags echo @ [''all'']) \<and>
   without_id stocked ''alice'' ''default'' (id' echo) \<and>
   without_id stocked ''alice'' ''all'' (id' echo) \<and>
   records stocked ''alice'' ''default'' = [other_op] \<and>
   fst (write_ops_cli (Some ''ops'') ''alice'' None (Some [echo]) stocked) = Inr associated \<and>
   records (snd (write_ops_cli (Some ''ops'') ''alice'' None (Some [echo]) stocked))
       ''alice'' ''default'' =
     [other_op, (model_dump echo)\<lparr>op_tags := Some [''default'', ''all'']\<rparr>] \<and>
   present ''alice'' ((model_dump echo)\<lparr>op_tags := Some [''default'', ''all'']\<rparr>) ''default''
     (snd (write_ops_cli (Some ''ops'') ''alice'' None (Some [echo]) stocked)) \<and>
   present ''alice'' ((model_dump echo)\<lparr>op_tags := Some [''default'', ''all'']\<rparr>) ''all''
     (snd (write_ops_cli (Some ''ops'') ''alice'' None (Some [echo]) stocked))"
proof -
  have n: "''ops'' \<noteq> []" by simp
  have i: "op_id echo_op = Some ''op1''" and t: "op_tags echo_op = Some [''default'']"
    by (simp_all add: echo_op_def)
  have w: "with_ids stocked ''system'' ''default''" "with_ids stocked ''system'' ''all''"
    by (simp_all add: with_ids_def stocked_def no_table_def other_op_def moved_op_def echo_op_def)
  have r: "records stocked ''system'' ''default'' = [other_op, moved_op]"
    "records stocked ''system'' ''all'' = [other_op]"
    "records stocked ''alice'' ''default'' = [other_op]"
    by (simp_all add: records_def stocked_def no_table_def)
  have d: "distinct (tags echo @ [''all''])" by (simp add: echo_def)
  have o: "without_id stocked ''alice'' ''default'' (id' echo)"
    "without_id stocked ''alice'' ''all'' (id' echo)"
    by (simp_all add: without_id_def stocked_def no_table_def other_op_def echo_op_def echo_def)
  have ws: "\<forall>tag \<in> set [''default''] \<union> {''all''}. with_ids stocked ''system'' tag"
    using w by simp
  have os: "\<forall>tag \<in> set (tags echo) \<union> {''all''}. without_id stocked ''alice'' tag (id' echo)"
    using o by (simp add: echo_def)
  note total = upsert_discoverable [THEN conjunct2]
  note s = total [THEN conjunct1, THEN mp, OF conjI [OF refl conjI [OF n
        conjI [OF i conjI [OF t ws]]]], of "''alice''"]
  note c = total [THEN conjunct2, THEN mp, OF conjI [OF refl conjI [OF n
        conjI [OF d os]]], of None]
  have s1: "fst (write_ops (Some ''ops'') ''alice'' [echo_op] stocked) = Inr associated"
    and s2: "present ''system''
     (echo_op\<lparr>op_tags := Some [''default'', ''all''], op_tag := None,
              op_includeAccessToken := Some True\<rparr>) ''default''
     (snd (write_ops (Some ''ops'') ''alice'' [echo_op] stocked))"
    and s3: "present ''system''
     (echo_op\<lparr>op_tags := Some [''default'', ''all''], op_tag := None,
              op_includeAccessToken := Some True\<rparr>) ''all''
     (snd (write_ops (Some ''ops'') ''alice'' [echo_op] stocked))"
    using s by auto
  have c1: "fst (write_ops_cli (Some ''ops'') ''alice'' None (Some [echo]) stocked) = Inr associated"
    and c2: "present ''alice'' ((model_dump echo)\<lparr>op_tags := Some [''default'', ''all'']\<rparr>)
      ''default'' (snd (write_ops_cli (Some ''ops'') ''alice'' None (Some [echo]) stocked))"
    and c3: "present ''alice'' ((model_dump echo)\<lparr>op_tags := Some [''default'', ''all'']\<rparr>)
      ''all'' (snd (write_ops_cli (Some ''ops'') ''alice'' None (Some [echo]) stocked))"
    using c by (auto simp: echo_def)
  have e1: "records (snd (write_ops (Some ''ops'') ''alice'' [echo_op] stocked)) ''system'' ''default'' =
     [other_op, echo_op\<lparr>op_tags := Some [''default'', ''all''], op_tag := None,
                          op_includeAccessToken := Some True\<rparr>]"
    and e2: "records (snd (write_ops (Some ''ops'') ''alice'' [echo_op] stocked)) ''system'' ''all'' =
     [other_op, echo_op\<lparr>op_tags := Some [''default'', ''all''], op_tag := None,
                          op_includeAccessToken := Some True\<rparr>]"
    by (simp_all add: write_ops_def write_op_def write_tag_def prepared_def append_all_def
        operation_tags_def records_def stocked_def no_table_def other_op_def moved_op_def
        echo_op_def Let_def)
  have e3: "records (snd (write_ops_cli (Some ''ops'') ''alice'' None (Some [echo]) stocked))
       ''alice'' ''default'' =
     [other_op, (model_dump echo)\<lparr>op_tags := Some [''default'', ''all'']\<rparr>]"
    by (simp add: write_ops_cli_def write_op_cli_def write_tag_cli_def append_all_def
        operation_tags_def records_def stocked_def no_table_def other_op_def
        echo_op_def model_dump_def echo_def Let_def)
  show ?thesis
    using i t w r d o s1 s2 s3 c1 c2 c3 e1 e2 e3 by (intro conjI) (simp_all only: simp_thms)
qed

text \<open>
  C1, as stated, fails for the service: called for owner \<^verbatim>\<open>"alice"\<close> on an empty table it
  returns its success result, and the record is in no partition of \<^verbatim>\<open>"alice"\<close>; it is in
  the partitions of \<^verbatim>\<open>"system"\<close>.
\<close>

theorem upsert_discoverable_counterexample:
  "fst (write_ops (Some ''ops'') ''alice'' [echo_op] no_table) = Inr associated \<and>
   records (snd (write_ops (Some ''ops'') ''alice'' [echo_op] no_table)) ''alice'' ''default'' = [] \<and>
   records (snd (write_ops (Some ''ops'') ''alice'' [echo_op] no_table)) ''alice'' ''all'' = [] \<and>
   \<not> present ''alice''
     (echo_op\<lparr>op_tags := Some [''default'', ''all''], op_tag := None,
              op_includeAccessToken := Some True\<rparr>) ''default''
     (snd (write_ops (Some ''ops'') ''alice'' [echo_op] no_table)) \<and>
   present ''system''
     (echo_op\<lparr>op_tags := Some [''default'', ''all''], op_tag := None,
              op_includeAccessToken := Some True\<rparr>) ''default''
     (snd (write_ops (Some ''ops'') ''alice'' [echo_op] no_table))"
  by (simp add: write_ops_def write_op_def write_tag_def prepared_def append_all_def
      operation_tags_def records_def present_def no_table_def echo_op_def Let_def)

section \<open>Upsert into a partition that holds the id\<close>

text \<open>
  The service replaces in place: the first entry with the id of the record is overwritten
  at its index, nothing is appended, and the length of the list stays.
\<close>

lemma upsert_ops_in_place:
  "op_id op = Some i \<Longrightarrow> n < length xs \<Longrightarrow> op_id (xs ! n) = Some i \<Longrightarrow>
   (\<forall>k<n. \<exists>j. op_id (xs ! k) = Some j \<and> j \<noteq> i) \<Longrightarrow>
   upsert_ops op xs = Inr (xs[n := op])"
proof (induction xs arbitrary: n)
  case Nil
  then show ?case by simp
next
  case (Cons x xs)
  show ?case
  proof (cases n)
    case 0
    then show ?thesis using Cons.prems by simp
  next
    case (Suc m)
    have x: "\<exists>j. op_id x = Some j \<and> j \<noteq> i" using Cons.prems(4) Suc by auto
    have "\<forall>k<m. \<exists>j. op_id (xs ! k) = Some j \<and> j \<noteq> i"
    proof (intro allI impI)
      fix k assume "k < m"
      then have "Suc k < n" using Suc by simp
      then show "\<exists>j. op_id (xs ! k) = Some j \<and> j \<noteq> i" using Cons.prems(4) by fastforce
    qed
    then have "upsert_ops op xs = Inr (xs[m := op])"
      using Cons.IH [of m] Cons.prems Suc by simp
    then show ?thesis using x Cons.prems(1) Suc by auto
  qed
qed

lemma upsert_ops_same_length:
  "upsert_ops op xs = Inr ys \<Longrightarrow> \<exists>e \<in> set xs. op_id e = op_id op \<Longrightarrow>
   length ys = length xs"
  by (induction xs arbitrary: ys) (auto split: option.splits if_splits sum.splits)

lemma registered_eq:
  "registered =
     no_table((''system'', ''default'') \<mapsto> Some [(model_dump echo)\<lparr>op_tags := Some [''default'', ''all'']\<rparr>],
              (''system'', ''all'') \<mapsto> Some [(model_dump echo)\<lparr>op_tags := Some [''default'', ''all'']\<rparr>])"
  by (simp add: registered_def write_ops_cli_def write_op_cli_def write_tag_cli_def
      append_all_def operation_tags_def model_dump_def echo_def no_table_def Let_def)

text \<open>
  The tool's scan stops with \<^verbatim>\<open>NameError\<close> at an entry with the id of the record, so a
  partition the tool has written the record to refuses it from then on.
\<close>

lemma upsert_ops_cli_then_raises:
  "op_id op = Some i \<Longrightarrow> upsert_ops_cli op xs = Inr ys \<Longrightarrow>
   upsert_ops_cli op ys = Inl (NameError ''json'')"
  by (induction xs arbitrary: ys) (auto split: option.splits if_splits sum.splits)

lemma write_tag_cli_then_raises:
  assumes "op_id op = Some i" and "write_tag_cli user op tag tbl = (Inr u, tbl')"
  shows "write_tag_cli user op tag tbl' = (Inl (NameError ''json''), tbl')"
  using assms
  by (auto simp: write_tag_cli_def split: option.splits sum.splits
      dest: upsert_ops_cli_then_raises)

lemma write_tag_cli_raises_kept:
  assumes "write_tag_cli user op tag tbl = (Inl e, tbl)"
    and "write_tag_cli user op tag' tbl = (Inr u, tbl')"
  shows "write_tag_cli user op tag tbl' = (Inl e, tbl')"
proof -
  have "tag' \<noteq> tag" using assms by auto
  then have "tbl' (user, tag) = tbl (user, tag)"
    using write_tag_cli_other [OF assms(2), of "(user, tag)"] by simp
  then show ?thesis using assms(1)
    by (auto simp: write_tag_cli_def split: option.splits sum.splits)
qed

lemma write_tags_cli_raises_kept:
  "write_tag_cli user op tag tbl = (Inl e, tbl) \<Longrightarrow>
   write_tags_cli user op ts tbl = (Inr u, tbl') \<Longrightarrow>
   write_tag_cli user op tag tbl' = (Inl e, tbl')"
proof (induction ts arbitrary: tbl)
  case Nil
  then show ?case by simp
next
  case (Cons t ts)
  obtain r0 tbl0 where step: "write_tag_cli user op t tbl = (r0, tbl0)"
    by (cases "write_tag_cli user op t tbl")
  then obtain u0 where r0: "r0 = Inr u0"
    and rest: "write_tags_cli user op ts tbl0 = (Inr u, tbl')"
    using Cons.prems(2) by (cases r0) auto
  have "write_tag_cli user op tag tbl0 = (Inl e, tbl0)"
    using write_tag_cli_raises_kept [OF Cons.prems(1)] step r0 by simp
  then show ?case using Cons.IH rest by blast
qed

lemma write_tags_cli_then_raises:
  assumes "op_id op = Some i" and "write_tags_cli user op (t # ts) tbl = (Inr u, tbl')"
  shows "write_tags_cli user op (t # ts) tbl' = (Inl (NameError ''json''), tbl')"
proof -
  obtain r0 tbl0 where step: "write_tag_cli user op t tbl = (r0, tbl0)"
    by (cases "write_tag_cli user op t tbl")
  then obtain u0 where r0: "r0 = Inr u0"
    and rest: "write_tags_cli user op ts tbl0 = (Inr u, tbl')"
    using assms(2) by (cases r0) auto
  have "write_tag_cli user op t tbl0 = (Inl (NameError ''json''), tbl0)"
    using write_tag_cli_then_raises [OF assms(1)] step r0 by simp
  then have "write_tag_cli user op t tbl' = (Inl (NameError ''json''), tbl')"
    using write_tags_cli_raises_kept rest by blast
  then show ?thesis by simp
qed

text \<open>
  For every record, owner and table: once the tool has registered a record, registering
  it again raises \<^verbatim>\<open>NameError\<close> at the first tag and writes nothing.
\<close>

lemma cli_reregister_always_raises:
  assumes "write_ops_cli table_name owner tags_arg (Some [m]) tbl = (Inr associated, tbl')"
  shows "write_ops_cli table_name owner tags_arg (Some [m]) tbl' =
     (Inl (NameError ''json''), tbl')"
proof -
  have set: "\<not> (table_name = None \<or> table_name = Some [])"
    using assms
    by (auto simp: write_ops_cli_def associated_def table_not_set_def split: if_splits)
  have id: "op_id (append_all (model_dump m)) = Some (id' m)"
    by (simp add: append_all_def model_dump_def)
  have tags: "operation_tags (model_dump m) = hd (tags m @ [''all'']) # tl (tags m @ [''all''])"
    by (simp add: operation_tags_def model_dump_def)
  have "write_tags_cli owner (append_all (model_dump m))
          (hd (tags m @ [''all'']) # tl (tags m @ [''all''])) tbl = (Inr (), tbl')"
    using write_ops_cli_success [OF assms] tags by (simp add: write_op_cli_def)
  then have "write_tags_cli owner (append_all (model_dump m))
          (hd (tags m @ [''all'']) # tl (tags m @ [''all''])) tbl' =
        (Inl (NameError ''json''), tbl')"
    using write_tags_cli_then_raises [OF id] by blast
  then have "write_op_cli owner m tbl' = (Inl (NameError ''json''), tbl')"
    using tags by (simp add: write_op_cli_def)
  then show ?thesis using set by (simp add: write_ops_cli_def)
qed

text \<open>
  C6. Registering an unchanged record again must raise no error. The command line tool
  does: after it has registered \<open>echo\<close> in an empty table, the record is present under
  \<^verbatim>\<open>"default"\<close> and \<^verbatim>\<open>"all"\<close>, and the same call on that table raises \<^verbatim>\<open>NameError\<close> at
  the first partition, leaving the table as it was.
\<close>

theorem cli_reregister_raises:
  "write_ops_cli (Some ''ops'') ''system'' None (Some [echo]) no_table =
     (Inr associated, registered) \<and>
   present ''system'' ((model_dump echo)\<lparr>op_tags := Some [''default'', ''all'']\<rparr>)
     ''default'' registered \<and>
   present ''system'' ((model_dump echo)\<lparr>op_tags := Some [''default'', ''all'']\<rparr>)
     ''all'' registered \<and>
   write_ops_cli (Some ''ops'') ''system'' None (Some [echo]) registered =
     (Inl (NameError ''json''), registered)"
proof -
  have 1: "write_ops_cli (Some ''ops'') ''system'' None (Some [echo]) no_table =
     (Inr associated, registered)"
    unfolding registered_def
    by (simp add: write_ops_cli_def write_op_cli_def write_tag_cli_def
      append_all_def operation_tags_def model_dump_def echo_def no_table_def Let_def)
  have 2: "write_ops_cli (Some ''ops'') ''system'' None (Some [echo]) registered =
     (Inl (NameError ''json''), registered)"
    unfolding registered_eq
    by (simp add: write_ops_cli_def write_op_cli_def write_tag_cli_def
      append_all_def operation_tags_def model_dump_def echo_def no_table_def Let_def)
  show ?thesis using 1 2 by (simp add: registered_eq present_def)
qed

text \<open>
  C2. An upsert into a partition that holds an entry with the record's id must replace
  that entry in place. The command line tool does not: with \<open>echo\<close> registered, the upsert
  of \<open>echo2\<close>, which has the same id and a new description, raises \<^verbatim>\<open>NameError\<close> and
  leaves the old entry in the partition. The service's \<^verbatim>\<open>write_ops\<close> on the same table
  and record succeeds and replaces the entry.
\<close>

theorem cli_upsert_existing_id_raises:
  "registered (''system'', ''default'') =
     Some (Some [(model_dump echo)\<lparr>op_tags := Some [''default'', ''all'']\<rparr>]) \<and>
   id' echo2 = id' echo \<and>
   write_ops_cli (Some ''ops'') ''system'' None (Some [echo2]) registered =
     (Inl (NameError ''json''), registered) \<and>
   fst (write_ops (Some ''ops'') ''system'' [model_dump echo2] registered) = Inr associated \<and>
   snd (write_ops (Some ''ops'') ''system'' [model_dump echo2] registered)
       (''system'', ''default'') =
     Some (Some [(model_dump echo2)\<lparr>op_tags := Some [''default'', ''all'']\<rparr>])"
proof -
  have 1: "write_ops_cli (Some ''ops'') ''system'' None (Some [echo2]) registered =
     (Inl (NameError ''json''), registered)"
    unfolding registered_eq
    by (simp add: write_ops_cli_def write_op_cli_def write_tag_cli_def
      append_all_def operation_tags_def model_dump_def echo_def echo2_def no_table_def Let_def)
  have 2: "write_ops (Some ''ops'') ''system'' [model_dump echo2] registered =
     (Inr associated,
      registered((''system'', ''default'') \<mapsto> Some [(model_dump echo2)\<lparr>op_tags := Some [''default'', ''all'']\<rparr>],
              (''system'', ''all'') \<mapsto> Some [(model_dump echo2)\<lparr>op_tags := Some [''default'', ''all'']\<rparr>]))"
    unfolding registered_eq
    by (simp add: write_ops_def write_op_def write_tag_def prepared_def
      append_all_def operation_tags_def model_dump_def echo_def echo2_def no_table_def Let_def)
  show ?thesis using 1 2 by (simp add: registered_eq echo2_def)
qed

section \<open>Deletion by the exact triple\<close>

lemma matches_triple:
  "op_id ref = Some i \<Longrightarrow> op_name ref = Some n \<Longrightarrow> op_url ref = Some u \<Longrightarrow>
   matches e ref = Inr (op_id e = Some i \<and> op_name e = Some n \<and> op_url e = Some u)"
  by (simp add: matches_def)

lemma filter_ops_filter:
  "op_id ref = Some i \<Longrightarrow> op_name ref = Some n \<Longrightarrow> op_url ref = Some u \<Longrightarrow>
   filter_ops ref xs =
     Inr (filter (\<lambda>e. \<not> (op_id e = Some i \<and> op_name e = Some n \<and> op_url e = Some u)) xs)"
  by (induction xs) (simp_all add: matches_triple)

lemma filter_same_length: "length (filter P xs) = length xs \<Longrightarrow> filter P xs = xs"
proof (induction xs)
  case Nil
  then show ?case by simp
next
  case (Cons x xs)
  show ?case
  proof (cases "P x")
    case True
    then show ?thesis using Cons by simp
  next
    case False
    have "length (filter P xs) \<le> length xs" by (rule length_filter_le)
    moreover have "length (filter P xs) = Suc (length xs)" using Cons.prems False by simp
    ultimately have False by arith
    then show ?thesis ..
  qed
qed

lemma delete_tag_records:
  assumes f: "\<And>xs. filter_ops ref xs = Inr (filter P xs)"
  shows "\<exists>tbl'. delete_tag user ref tag tbl = (Inr (), tbl') \<and>
     records tbl' user tag = filter P (records tbl user tag) \<and>
     (\<forall>k. k \<noteq> (user, tag) \<longrightarrow> tbl' k = tbl k)"
proof (cases "tbl (user, tag)")
  case None
  then show ?thesis by (simp add: delete_tag_def records_def)
next
  case (Some item)
  define xs where "xs = (case item of None \<Rightarrow> [] | Some ys \<Rightarrow> ys)"
  have r: "records tbl user tag = xs"
    using Some by (simp add: records_def xs_def split: option.splits)
  show ?thesis
  proof (cases "length (filter P xs) = length xs")
    case True
    then have "filter P xs = xs" by (rule filter_same_length)
    moreover have "delete_tag user ref tag tbl = (Inr (), tbl)"
      using Some True by (simp add: delete_tag_def f xs_def)
    ultimately show ?thesis using r by simp
  next
    case False
    show ?thesis
    proof (cases "filter P xs = []")
      case True
      then have "delete_tag user ref tag tbl = (Inr (), tbl((user, tag) := None))"
        using Some False by (simp add: delete_tag_def f xs_def)
      then show ?thesis using r True by (simp add: records_def)
    next
      case nonempty: False
      then have "delete_tag user ref tag tbl =
          (Inr (), tbl((user, tag) \<mapsto> Some (filter P xs)))"
        using Some False by (simp add: delete_tag_def f xs_def)
      then show ?thesis using r by (simp add: records_def)
    qed
  qed
qed

lemma delete_tags_records:
  assumes f: "\<And>xs. filter_ops ref xs = Inr (filter P xs)"
  shows "\<exists>tbl'. delete_tags user ref ts tbl = (Inr (), tbl') \<and>
     (\<forall>tag. records tbl' user tag =
        (if tag \<in> set ts then filter P (records tbl user tag) else records tbl user tag)) \<and>
     (\<forall>k. fst k \<noteq> user \<longrightarrow> tbl' k = tbl k)"
proof (induction ts arbitrary: tbl)
  case Nil
  then show ?case by simp
next
  case (Cons t ts)
  obtain tbl0 where step: "delete_tag user ref t tbl = (Inr (), tbl0)"
    and here: "records tbl0 user t = filter P (records tbl user t)"
    and other: "\<forall>k. k \<noteq> (user, t) \<longrightarrow> tbl0 k = tbl k"
    using delete_tag_records [OF f, of user t tbl] by blast
  obtain tbl' where rest: "delete_tags user ref ts tbl0 = (Inr (), tbl')"
    and recs: "\<forall>tag. records tbl' user tag =
        (if tag \<in> set ts then filter P (records tbl0 user tag) else records tbl0 user tag)"
    and frame: "\<forall>k. fst k \<noteq> user \<longrightarrow> tbl' k = tbl0 k"
    using Cons.IH [of tbl0] by blast
  have elsewhere: "records tbl0 user tag = records tbl user tag" if "tag \<noteq> t" for tag
    using other that by (simp add: records_def)
  have "records tbl' user tag =
        (if tag \<in> set (t # ts) then filter P (records tbl user tag) else records tbl user tag)"
    for tag
  proof (cases "tag = t")
    case True
    then show ?thesis using recs here by simp
  next
    case False
    then show ?thesis using recs elsewhere by simp
  qed
  moreover have "\<forall>k. fst k \<noteq> user \<longrightarrow> tbl' k = tbl k"
    using frame other by auto
  moreover have "delete_tags user ref (t # ts) tbl = (Inr (), tbl')"
    using step rest by simp
  ultimately show ?case by blast
qed

text \<open>
  C4. For a reference that carries id, name, url and tags, \<^verbatim>\<open>delete_op\<close> succeeds and leaves
  in every partition of its tags and of \<^verbatim>\<open>"all"\<close> (of owner \<^verbatim>\<open>"system"\<close>, the one it works
  on) exactly the stored records, in their order, that differ from the reference in id,
  name or url: a record goes if and only if all three are equal. In particular a stored
  record with the id of the reference and another url stays, in every partition.
\<close>

theorem delete_exact_triple:
  assumes "table_name = Some tn" and "tn \<noteq> []"
    and "op_id ref = Some i" and "op_name ref = Some n" and "op_url ref = Some u"
    and "op_tags ref = Some ts"
  shows "\<exists>tbl'. delete_op table_name current_user ref tbl = (Inr deleted, tbl') \<and>
     (\<forall>tag \<in> set ts \<union> {''all''}.
        records tbl' ''system'' tag =
          filter (\<lambda>e. \<not> (op_id e = Some i \<and> op_name e = Some n \<and> op_url e = Some u))
            (records tbl ''system'' tag)) \<and>
     (\<forall>tag e. e \<in> set (records tbl ''system'' tag) \<and> op_id e = Some i \<and> op_url e \<noteq> Some u
        \<longrightarrow> e \<in> set (records tbl' ''system'' tag))"
proof -
  define P where "P = (\<lambda>e::op. \<not> (op_id e = Some i \<and> op_name e = Some n \<and> op_url e = Some u))"
  define ref' where "ref' = (if ''all'' \<in> set ts then ref else ref\<lparr>op_tags := Some (ts @ [''all''])\<rparr>)"
  define ts' where "ts' = (if ''all'' \<in> set ts then ts else ts @ [''all''])"
  have f: "\<And>xs. filter_ops ref' xs = Inr (filter P xs)"
    unfolding P_def by (rule filter_ops_filter) (simp_all add: ref'_def assms)
  have tags': "op_tags ref' = Some ts'" by (simp add: ref'_def ts'_def assms)
  have set': "set ts' = set ts \<union> {''all''}" by (auto simp: ts'_def)
  obtain tbl' where run: "delete_tags ''system'' ref' ts' tbl = (Inr (), tbl')"
    and recs: "\<forall>tag. records tbl' ''system'' tag =
        (if tag \<in> set ts' then filter P (records tbl ''system'' tag)
         else records tbl ''system'' tag)"
    using delete_tags_records [OF f, of "''system''" ts' tbl] by blast
  have "delete_op table_name current_user ref tbl = (Inr deleted, tbl')"
    using run tags' assms(1,2,6) by (simp add: delete_op_def ref'_def Let_def)
  moreover have "\<forall>tag \<in> set ts \<union> {''all''}.
        records tbl' ''system'' tag = filter P (records tbl ''system'' tag)"
    using recs set' by simp
  moreover have "\<forall>tag e. e \<in> set (records tbl ''system'' tag) \<and> op_id e = Some i \<and> op_url e \<noteq> Some u
        \<longrightarrow> e \<in> set (records tbl' ''system'' tag)"
    using recs by (simp add: P_def)
  ultimately show ?thesis unfolding P_def by blast
qed

theorem delete_exact_triple_witness:
  "Some ''ops'' = Some ''ops'' \<and> ''ops'' \<noteq> [] \<and>
   op_id echo_op = Some ''op1'' \<and> op_name echo_op = Some ''Echo'' \<and>
   op_url echo_op = Some ''/echo'' \<and> op_tags echo_op = Some [''default''] \<and>
   (\<exists>tbl'. delete_op (Some ''ops'') ''alice'' echo_op two_ops = (Inr deleted, tbl') \<and>
      records two_ops ''system'' ''default'' = [echo_op, moved_op] \<and>
      records tbl' ''system'' ''default'' = [moved_op] \<and>
      records tbl' ''system'' ''all'' = [])"
proof -
  have h: "op_id echo_op = Some ''op1''" "op_name echo_op = Some ''Echo''"
    "op_url echo_op = Some ''/echo''" "op_tags echo_op = Some [''default'']"
    by (simp_all add: echo_op_def)
  have n: "''ops'' \<noteq> []" by simp
  show ?thesis
    using h delete_exact_triple [OF refl n h, of "''alice''" two_ops]
    by (auto simp: records_def two_ops_def no_table_def moved_op_def echo_op_def)
qed

section \<open>The service works on the partitions of "system" only\<close>

lemma snd_outcome:
  "snd (case p of (Inl e, t) \<Rightarrow> (Inl e, t) | (Inr u, t) \<Rightarrow> (Inr c, t)) = snd p"
  by (cases p) (auto split: sum.splits)

lemma fst_outcome:
  "fst (case p of (Inl e, t) \<Rightarrow> (Inl e, t) | (Inr u, t) \<Rightarrow> (Inr c, t)) =
     (case fst p of Inl e \<Rightarrow> Inl e | Inr u \<Rightarrow> Inr c)"
  by (cases p) (auto split: sum.splits)

lemma write_tags_frame:
  "fst k \<noteq> user \<Longrightarrow> snd (write_tags user op ts tbl) k = tbl k"
proof (induction ts arbitrary: tbl)
  case Nil
  then show ?case by simp
next
  case (Cons t ts)
  obtain r0 tbl0 where step: "write_tag user op t tbl = (r0, tbl0)"
    by (cases "write_tag user op t tbl")
  have "tbl0 k = tbl k"
    using write_tag_other [OF step, of k] Cons.prems by (cases k) auto
  then show ?case using step Cons.IH [OF Cons.prems, of tbl0] by (cases r0) simp_all
qed

lemma write_each_frame:
  "fst k \<noteq> user \<Longrightarrow> snd (write_each user ops tbl) k = tbl k"
proof (induction ops arbitrary: tbl)
  case Nil
  then show ?case by simp
next
  case (Cons x xs)
  obtain r0 tbl0 where step: "write_op user x tbl = (r0, tbl0)"
    by (cases "write_op user x tbl")
  have "tbl0 k = tbl k"
    using write_tags_frame [OF Cons.prems, of "prepared x" "operation_tags x" tbl] step
    by (simp add: write_op_def)
  then show ?case using step Cons.IH [OF Cons.prems, of tbl0] by (cases r0) simp_all
qed

lemma write_ops_frame:
  "owner \<noteq> ''system'' \<Longrightarrow>
   snd (write_ops table_name current_user ops tbl) (owner, tag) = tbl (owner, tag)"
  using write_each_frame [of "(owner, tag)" "''system''" ops tbl]
  by (simp add: write_ops_def snd_outcome)

lemma write_tag_agree:
  assumes "\<forall>t. tbl1 (user, t) = tbl2 (user, t)"
  shows "fst (write_tag user op tag tbl1) = fst (write_tag user op tag tbl2) \<and>
     (\<forall>t. snd (write_tag user op tag tbl1) (user, t) = snd (write_tag user op tag tbl2) (user, t))"
proof -
  have "tbl1 (user, tag) = tbl2 (user, tag)" using assms by simp
  then show ?thesis using assms
    by (auto simp: write_tag_def split: option.splits sum.splits)
qed

lemma write_tags_agree:
  "\<forall>t. tbl1 (user, t) = tbl2 (user, t) \<Longrightarrow>
   fst (write_tags user op ts tbl1) = fst (write_tags user op ts tbl2) \<and>
   (\<forall>t. snd (write_tags user op ts tbl1) (user, t) = snd (write_tags user op ts tbl2) (user, t))"
proof (induction ts arbitrary: tbl1 tbl2)
  case Nil
  then show ?case by simp
next
  case (Cons x xs)
  obtain r1 a1 where s1: "write_tag user op x tbl1 = (r1, a1)"
    by (cases "write_tag user op x tbl1")
  obtain r2 a2 where s2: "write_tag user op x tbl2 = (r2, a2)"
    by (cases "write_tag user op x tbl2")
  have same: "r1 = r2" and agree: "\<forall>t. a1 (user, t) = a2 (user, t)"
    using write_tag_agree [OF Cons.prems, of op x] s1 s2 by simp_all
  show ?case
  proof (cases r1)
    case (Inl e)
    then show ?thesis using s1 s2 same agree by simp
  next
    case (Inr u)
    then show ?thesis using s1 s2 same Cons.IH [OF agree] by simp
  qed
qed

lemma write_each_agree:
  "\<forall>t. tbl1 (user, t) = tbl2 (user, t) \<Longrightarrow>
   fst (write_each user ops tbl1) = fst (write_each user ops tbl2) \<and>
   (\<forall>t. snd (write_each user ops tbl1) (user, t) = snd (write_each user ops tbl2) (user, t))"
proof (induction ops arbitrary: tbl1 tbl2)
  case Nil
  then show ?case by simp
next
  case (Cons x xs)
  obtain r1 a1 where s1: "write_op user x tbl1 = (r1, a1)"
    by (cases "write_op user x tbl1")
  obtain r2 a2 where s2: "write_op user x tbl2 = (r2, a2)"
    by (cases "write_op user x tbl2")
  have same: "r1 = r2" and agree: "\<forall>t. a1 (user, t) = a2 (user, t)"
    using write_tags_agree [OF Cons.prems, of "prepared x" "operation_tags x"] s1 s2
    by (simp_all add: write_op_def)
  show ?case
  proof (cases r1)
    case (Inl e)
    then show ?thesis using s1 s2 same agree by simp
  next
    case (Inr u)
    then show ?thesis using s1 s2 same Cons.IH [OF agree] by simp
  qed
qed

lemma write_ops_agree:
  assumes "\<forall>t. tbl1 (''system'', t) = tbl2 (''system'', t)"
  shows "fst (write_ops table_name current_user ops tbl1) =
       fst (write_ops table_name current_user ops tbl2) \<and>
     (\<forall>t. snd (write_ops table_name current_user ops tbl1) (''system'', t) =
          snd (write_ops table_name current_user ops tbl2) (''system'', t))"
  using assms write_each_agree [OF assms, of ops]
  by (simp add: write_ops_def snd_outcome fst_outcome)

lemma delete_tag_other:
  "delete_tag user op tag tbl = (r, tbl') \<Longrightarrow> k \<noteq> (user, tag) \<Longrightarrow> tbl' k = tbl k"
  by (auto simp: delete_tag_def Let_def split: option.splits sum.splits if_splits)

lemma delete_tags_frame:
  "fst k \<noteq> user \<Longrightarrow> snd (delete_tags user op ts tbl) k = tbl k"
proof (induction ts arbitrary: tbl)
  case Nil
  then show ?case by simp
next
  case (Cons t ts)
  obtain r0 tbl0 where step: "delete_tag user op t tbl = (r0, tbl0)"
    by (cases "delete_tag user op t tbl")
  have "tbl0 k = tbl k"
    using delete_tag_other [OF step, of k] Cons.prems by (cases k) auto
  then show ?case using step Cons.IH [OF Cons.prems, of tbl0] by (cases r0) simp_all
qed

lemma delete_op_frame:
  assumes "owner \<noteq> ''system''"
  shows "snd (delete_op table_name current_user ref tbl) (owner, tag) = tbl (owner, tag)"
proof -
  have "snd (delete_tags ''system'' op ts tbl) (owner, tag) = tbl (owner, tag)" for op ts
    using delete_tags_frame [of "(owner, tag)" "''system''" op ts tbl] assms by simp
  then show ?thesis
    by (simp add: delete_op_def Let_def snd_outcome split: option.splits)
qed

lemma delete_tag_agree:
  assumes "\<forall>t. tbl1 (user, t) = tbl2 (user, t)"
  shows "fst (delete_tag user op tag tbl1) = fst (delete_tag user op tag tbl2) \<and>
     (\<forall>t. snd (delete_tag user op tag tbl1) (user, t) = snd (delete_tag user op tag tbl2) (user, t))"
proof -
  have "tbl1 (user, tag) = tbl2 (user, tag)" using assms by simp
  then show ?thesis using assms
    by (auto simp: delete_tag_def Let_def split: option.splits sum.splits)
qed

lemma delete_tags_agree:
  "\<forall>t. tbl1 (user, t) = tbl2 (user, t) \<Longrightarrow>
   fst (delete_tags user op ts tbl1) = fst (delete_tags user op ts tbl2) \<and>
   (\<forall>t. snd (delete_tags user op ts tbl1) (user, t) = snd (delete_tags user op ts tbl2) (user, t))"
proof (induction ts arbitrary: tbl1 tbl2)
  case Nil
  then show ?case by simp
next
  case (Cons x xs)
  obtain r1 a1 where s1: "delete_tag user op x tbl1 = (r1, a1)"
    by (cases "delete_tag user op x tbl1")
  obtain r2 a2 where s2: "delete_tag user op x tbl2 = (r2, a2)"
    by (cases "delete_tag user op x tbl2")
  have same: "r1 = r2" and agree: "\<forall>t. a1 (user, t) = a2 (user, t)"
    using delete_tag_agree [OF Cons.prems, of op x] s1 s2 by simp_all
  show ?case
  proof (cases r1)
    case (Inl e)
    then show ?thesis using s1 s2 same agree by simp
  next
    case (Inr u)
    then show ?thesis using s1 s2 same Cons.IH [OF agree] by simp
  qed
qed

lemma delete_op_agree:
  assumes "\<forall>t. tbl1 (''system'', t) = tbl2 (''system'', t)"
  shows "fst (delete_op table_name current_user ref tbl1) =
       fst (delete_op table_name current_user ref tbl2) \<and>
     (\<forall>t. snd (delete_op table_name current_user ref tbl1) (''system'', t) =
          snd (delete_op table_name current_user ref tbl2) (''system'', t))"
  using assms delete_tags_agree [OF assms]
  by (simp add: delete_op_def Let_def snd_outcome fst_outcome split: option.splits)

text \<open>
  C9. The service's \<^verbatim>\<open>write_ops\<close> and \<^verbatim>\<open>delete_op\<close> ignore \<^verbatim>\<open>current_user\<close>: any two
  callers get the same result and the same table. They leave every partition of an owner
  other than \<^verbatim>\<open>"system"\<close> as it is, and they read nothing else than the partitions
  of \<^verbatim>\<open>"system"\<close>: on two tables that agree there, they return or raise the same and
  leave the same partitions of \<^verbatim>\<open>"system"\<close>. This holds for every input, also when the
  call fails.
\<close>

theorem service_works_on_system_only:
  "write_ops table_name current_user ops tbl = write_ops table_name other_user ops tbl \<and>
   delete_op table_name current_user ref tbl = delete_op table_name other_user ref tbl \<and>
   (owner \<noteq> ''system'' \<longrightarrow>
      snd (write_ops table_name current_user ops tbl) (owner, tag) = tbl (owner, tag) \<and>
      snd (delete_op table_name current_user ref tbl) (owner, tag) = tbl (owner, tag)) \<and>
   ((\<forall>t. tbl (''system'', t) = tbl2 (''system'', t)) \<longrightarrow>
      fst (write_ops table_name current_user ops tbl) =
        fst (write_ops table_name current_user ops tbl2) \<and>
      (\<forall>t. snd (write_ops table_name current_user ops tbl) (''system'', t) =
           snd (write_ops table_name current_user ops tbl2) (''system'', t)) \<and>
      fst (delete_op table_name current_user ref tbl) =
        fst (delete_op table_name current_user ref tbl2) \<and>
      (\<forall>t. snd (delete_op table_name current_user ref tbl) (''system'', t) =
           snd (delete_op table_name current_user ref tbl2) (''system'', t)))"
proof (intro conjI impI)
  show "write_ops table_name current_user ops tbl = write_ops table_name other_user ops tbl"
    by (simp add: write_ops_def)
  show "delete_op table_name current_user ref tbl = delete_op table_name other_user ref tbl"
    by (simp add: delete_op_def)
next
  assume "owner \<noteq> ''system''"
  then show "snd (write_ops table_name current_user ops tbl) (owner, tag) = tbl (owner, tag)"
    by (rule write_ops_frame)
next
  assume "owner \<noteq> ''system''"
  then show "snd (delete_op table_name current_user ref tbl) (owner, tag) = tbl (owner, tag)"
    by (rule delete_op_frame)
next
  assume a: "\<forall>t. tbl (''system'', t) = tbl2 (''system'', t)"
  show "fst (write_ops table_name current_user ops tbl) =
        fst (write_ops table_name current_user ops tbl2)"
    using write_ops_agree [OF a] by simp
  show "\<forall>t. snd (write_ops table_name current_user ops tbl) (''system'', t) =
           snd (write_ops table_name current_user ops tbl2) (''system'', t)"
    using write_ops_agree [OF a] by simp
  show "fst (delete_op table_name current_user ref tbl) =
        fst (delete_op table_name current_user ref tbl2)"
    using delete_op_agree [OF a] by simp
  show "\<forall>t. snd (delete_op table_name current_user ref tbl) (''system'', t) =
           snd (delete_op table_name current_user ref tbl2) (''system'', t)"
    using delete_op_agree [OF a] by simp
qed

theorem service_works_on_system_only_witness:
  "''alice'' \<noteq> ''system'' \<and>
   (\<forall>t. with_alice (''system'', t) = two_ops (''system'', t)) \<and>
   with_alice (''alice'', ''default'') = Some (Some [moved_op]) \<and>
   write_ops (Some ''ops'') ''alice'' [moved_op] with_alice =
     write_ops (Some ''ops'') ''bob'' [moved_op] with_alice \<and>
   delete_op (Some ''ops'') ''alice'' echo_op with_alice =
     delete_op (Some ''ops'') ''bob'' echo_op with_alice \<and>
   snd (write_ops (Some ''ops'') ''alice'' [moved_op] with_alice) (''alice'', ''default'') =
     Some (Some [moved_op]) \<and>
   snd (delete_op (Some ''ops'') ''alice'' echo_op with_alice) (''alice'', ''default'') =
     Some (Some [moved_op]) \<and>
   fst (write_ops (Some ''ops'') ''alice'' [moved_op] with_alice) =
     fst (write_ops (Some ''ops'') ''alice'' [moved_op] two_ops) \<and>
   fst (delete_op (Some ''ops'') ''alice'' echo_op with_alice) =
     fst (delete_op (Some ''ops'') ''alice'' echo_op two_ops)"
proof -
  have o: "''alice'' \<noteq> ''system''" by simp
  have a: "\<forall>t. with_alice (''system'', t) = two_ops (''system'', t)"
    by (simp add: with_alice_def)
  have p: "with_alice (''alice'', ''default'') = Some (Some [moved_op])"
    by (simp add: with_alice_def)
  note t = service_works_on_system_only [of "Some ''ops''" "''alice''" "[moved_op]" with_alice
        "''bob''" echo_op "''alice''" "''default''" two_ops]
  note t1 = t [THEN conjunct1]
  note t2 = t [THEN conjunct2, THEN conjunct1]
  note t3 = t [THEN conjunct2, THEN conjunct2, THEN conjunct1, THEN mp, OF o]
  note t4 = t [THEN conjunct2, THEN conjunct2, THEN conjunct2, THEN mp, OF a]
  show ?thesis
    using o a p t1 t2 t3 t4 by (intro conjI) (simp_all only: simp_thms)
qed

section \<open>Reading with the fallback to "system"\<close>

lemma query_loop_table:
  "query_loop (table_query tbl) user tag None [] =
     Some (Inr (\<lparr>Items = (case tbl (user, tag) of None \<Rightarrow> [] | Some item \<Rightarrow> [item]),
                  LastEvaluatedKey = None\<rparr>,
                (case tbl (user, tag) of None \<Rightarrow> [] | Some item \<Rightarrow> [item])))"
  by (subst query_loop.simps) (simp add: table_query_def)

lemma query_loop_down:
  "query_loop (system_down tbl) ''system'' tag None [] =
     Some (Inl (ClientError ''system partition unreachable''))"
  by (subst query_loop.simps) (simp add: system_down_def)

lemma query_loop_down_other:
  "user \<noteq> ''system'' \<Longrightarrow>
   query_loop (system_down tbl) user tag None [] =
     Some (Inr (\<lparr>Items = (case tbl (user, tag) of None \<Rightarrow> [] | Some item \<Rightarrow> [item]),
                  LastEvaluatedKey = None\<rparr>,
                (case tbl (user, tag) of None \<Rightarrow> [] | Some item \<Rightarrow> [item])))"
  by (subst query_loop.simps) (simp add: system_down_def table_query_def)

lemma fetch_system:
  "fetch_user_ops q ''system'' tag =
     (case query_loop q ''system'' tag None [] of
        None \<Rightarrow> None
      | Some (Inl e) \<Rightarrow> Some (Inl e)
      | Some (Inr (response, all_items)) \<Rightarrow>
          (case item_ops (Items response) of
             Inl e \<Rightarrow> Some (Inl e)
           | Inr d \<Rightarrow> Some (Inr (retrieved d))))"
  by (subst fetch_user_ops.simps) (simp split: option.splits sum.splits)

lemma fetch_other:
  assumes "u \<noteq> ''system''"
    and "query_loop q u tag None [] = Some (Inr (response, all_items))"
    and "item_ops (Items response) = Inr own"
  shows "fetch_user_ops q u tag =
     (case fetch_user_ops q ''system'' tag of
        None \<Rightarrow> None
      | Some (Inl e) \<Rightarrow> Some (Inr (retrieved own))
      | Some (Inr system_ops) \<Rightarrow> Some (Inr (retrieved (own @ data system_ops))))"
  using assms by (subst fetch_user_ops.simps) simp

lemma item_ops_records:
  "tbl (user, tag) \<noteq> Some None \<Longrightarrow>
   item_ops (case tbl (user, tag) of None \<Rightarrow> [] | Some item \<Rightarrow> [item]) =
     Inr (records tbl user tag)"
  by (auto simp: records_def split: option.splits)

text \<open>
  C5. For a user other than \<^verbatim>\<open>"system"\<close> whose own lookup returns the records \<open>own\<close>:
  when the lookup for \<^verbatim>\<open>"system"\<close> returns \<open>system_ops\<close>, \<^verbatim>\<open>fetch_user_ops\<close> succeeds with
  \<open>own\<close> followed by \<open>system_ops\<close>; when the call for \<^verbatim>\<open>"system"\<close> raises any error, it
  still succeeds, with exactly \<open>own\<close>. On a table held in memory these are the records of
  the user's partition followed by those of the partition of \<^verbatim>\<open>"system"\<close>, and the user's
  records alone when that partition is out of reach.
\<close>

theorem fetch_own_then_system:
  assumes "u \<noteq> ''system''"
    and "query_loop q u tag None [] = Some (Inr (response, all_items))"
    and "item_ops (Items response) = Inr own"
  shows "(query_loop q ''system'' tag None [] = Some (Inr (system_response, system_items)) \<and>
      item_ops (Items system_response) = Inr system_ops \<longrightarrow>
        fetch_user_ops q u tag = Some (Inr (retrieved (own @ system_ops)))) \<and>
     (fetch_user_ops q ''system'' tag = Some (Inl e) \<longrightarrow>
        fetch_user_ops q u tag = Some (Inr (retrieved own))) \<and>
     (tbl (u, tag) \<noteq> Some None \<and> tbl (''system'', tag) \<noteq> Some None \<longrightarrow>
        fetch_user_ops (table_query tbl) u tag =
          Some (Inr (retrieved (records tbl u tag @ records tbl ''system'' tag))) \<and>
        fetch_user_ops (system_down tbl) ''system'' tag =
          Some (Inl (ClientError ''system partition unreachable'')) \<and>
        fetch_user_ops (system_down tbl) u tag = Some (Inr (retrieved (records tbl u tag))))"
proof (intro conjI impI)
  assume "query_loop q ''system'' tag None [] = Some (Inr (system_response, system_items)) \<and>
      item_ops (Items system_response) = Inr system_ops"
  then have "fetch_user_ops q ''system'' tag = Some (Inr (retrieved system_ops))"
    by (simp add: fetch_system)
  then show "fetch_user_ops q u tag = Some (Inr (retrieved (own @ system_ops)))"
    using fetch_other [OF assms] by (simp add: retrieved_def)
next
  assume "fetch_user_ops q ''system'' tag = Some (Inl e)"
  then show "fetch_user_ops q u tag = Some (Inr (retrieved own))"
    using fetch_other [OF assms] by simp
next
  assume a: "tbl (u, tag) \<noteq> Some None \<and> tbl (''system'', tag) \<noteq> Some None"
  define page where
    "page = \<lparr>Items = (case tbl (u, tag) of None \<Rightarrow> [] | Some item \<Rightarrow> [item]),
             LastEvaluatedKey = None\<rparr>"
  have sys: "fetch_user_ops (table_query tbl) ''system'' tag =
      Some (Inr (retrieved (records tbl ''system'' tag)))"
    using a by (simp add: fetch_system query_loop_table item_ops_records)
  have own: "item_ops (Items page) = Inr (records tbl u tag)"
    using a by (simp add: page_def item_ops_records)
  have up: "query_loop (table_query tbl) u tag None [] = Some (Inr (page, Items page))"
    by (simp add: page_def query_loop_table)
  show "fetch_user_ops (table_query tbl) u tag =
          Some (Inr (retrieved (records tbl u tag @ records tbl ''system'' tag)))"
    using fetch_other [OF assms(1) up own] sys by (simp add: retrieved_def)
  show down: "fetch_user_ops (system_down tbl) ''system'' tag =
          Some (Inl (ClientError ''system partition unreachable''))"
    by (simp add: fetch_system query_loop_down)
  have "query_loop (system_down tbl) u tag None [] = Some (Inr (page, Items page))"
    using assms(1) by (simp add: page_def query_loop_down_other)
  then show "fetch_user_ops (system_down tbl) u tag = Some (Inr (retrieved (records tbl u tag)))"
    using fetch_other [OF assms(1) _ own] down by simp
qed

theorem fetch_own_then_system_witness:
  "''alice'' \<noteq> ''system'' \<and>
   query_loop (table_query with_alice) ''alice'' ''default'' None [] =
     Some (Inr (\<lparr>Items = [Some [moved_op]], LastEvaluatedKey = None\<rparr>, [Some [moved_op]])) \<and>
   item_ops (Items \<lparr>Items = [Some [moved_op]], LastEvaluatedKey = None\<rparr>) = Inr [moved_op] \<and>
   query_loop (table_query with_alice) ''system'' ''default'' None [] =
     Some (Inr (\<lparr>Items = [Some [echo_op, moved_op]], LastEvaluatedKey = None\<rparr>,
                [Some [echo_op, moved_op]])) \<and>
   item_ops (Items \<lparr>Items = [Some [echo_op, moved_op]], LastEvaluatedKey = None\<rparr>) =
     Inr [echo_op, moved_op] \<and>
   fetch_user_ops (table_query with_alice) ''alice'' ''default'' =
     Some (Inr (retrieved ([moved_op] @ [echo_op, moved_op]))) \<and>
   query_loop (system_down with_alice) ''alice'' ''default'' None [] =
     Some (Inr (\<lparr>Items = [Some [moved_op]], LastEvaluatedKey = None\<rparr>, [Some [moved_op]])) \<and>
   fetch_user_ops (system_down with_alice) ''system'' ''default'' =
     Some (Inl (ClientError ''system partition unreachable'')) \<and>
   fetch_user_ops (system_down with_alice) ''alice'' ''default'' =
     Some (Inr (retrieved [moved_op])) \<and>
   success (retrieved [moved_op]) \<and>
   data (retrieved [moved_op]) = [moved_op] \<and>
   data (retrieved ([moved_op] @ [echo_op, moved_op])) = [moved_op, echo_op, moved_op]"
proof -
  have v: "success (retrieved [moved_op])" "data (retrieved [moved_op]) = [moved_op]"
    "data (retrieved ([moved_op] @ [echo_op, moved_op])) = [moved_op, echo_op, moved_op]"
    by (simp_all add: retrieved_def)
  have o: "''alice'' \<noteq> ''system''" by simp
  have q1: "query_loop (table_query with_alice) ''alice'' ''default'' None [] =
     Some (Inr (\<lparr>Items = [Some [moved_op]], LastEvaluatedKey = None\<rparr>, [Some [moved_op]]))"
    by (simp add: query_loop_table with_alice_def)
  have i1: "item_ops (Items \<lparr>Items = [Some [moved_op]], LastEvaluatedKey = None\<rparr>) =
      Inr [moved_op]"
    by simp
  have q2: "query_loop (table_query with_alice) ''system'' ''default'' None [] =
     Some (Inr (\<lparr>Items = [Some [echo_op, moved_op]], LastEvaluatedKey = None\<rparr>,
                [Some [echo_op, moved_op]]))"
    by (simp add: query_loop_table with_alice_def two_ops_def)
  have i2: "item_ops (Items \<lparr>Items = [Some [echo_op, moved_op]], LastEvaluatedKey = None\<rparr>) =
     Inr [echo_op, moved_op]"
    by simp
  have q3: "query_loop (system_down with_alice) ''alice'' ''default'' None [] =
     Some (Inr (\<lparr>Items = [Some [moved_op]], LastEvaluatedKey = None\<rparr>, [Some [moved_op]]))"
    by (simp add: query_loop_down_other with_alice_def)
  have d: "fetch_user_ops (system_down with_alice) ''system'' ''default'' =
     Some (Inl (ClientError ''system partition unreachable''))"
    by (simp add: fetch_system query_loop_down)
  note up = fetch_own_then_system [OF o q1 i1, THEN conjunct1, THEN mp, OF conjI, OF q2 i2]
  note down = fetch_own_then_system [OF o q3 i1, THEN conjunct2, THEN conjunct1, THEN mp, OF d]
  show ?thesis
    using o q1 i1 q2 i2 q3 d up down v by (intro conjI) (simp_all only: simp_thms)
qed


section \<open>What the scanner emits\<close>

lemma echo_decl_scanned: "decorator_op node_text echo_decl = Inr (Some scanned)"
  by (simp add: decorator_op_def echo_decl_def echo_keywords_def qualifies_def has_key_def
      op_kwargs_of_def operation_of_def extract_dict_def dict_of_def model_of_def kwarg_s_def
      attr_s_def new_OperationModel_def str_field_def validate_method_def upper_def
      upper_char_def extract_tags_def scanned_def)

lemma echo_decl2_scanned: "decorator_op node_text echo_decl2 = Inr (Some scanned2)"
  by (simp add: decorator_op_def echo_decl2_def qualifies_def has_key_def op_kwargs_of_def
      operation_of_def extract_dict_def dict_of_def model_of_def kwarg_s_def attr_s_def
      new_OperationModel_def str_field_def validate_method_def upper_def upper_char_def
      extract_tags_def scanned2_def)

lemma nested_decl_raises: "decorator_op node_text nested_decl = Inl (KeyError ''params'')"
  by (simp add: decorator_op_def nested_decl_def nested_keywords_def qualifies_def has_key_def
      op_kwargs_of_def operation_of_def)

lemma new_OperationModel_fields:
  assumes "new_OperationModel d i m n ps u ts q = Some r"
  shows "str_field i = Some (id' r)" and "str_field n = Some (name r)" and "tags r = ts"
  using assms
  by (auto simp: new_OperationModel_def split: option.splits)

lemma model_of_fields:
  assumes "model_of str_node op_kwargs ps q = Inr (Some r)"
  shows "id' r = name r" and "tags r = extract_tags str_node op_kwargs"
proof -
  obtain d i m n u where i: "kwarg_s op_kwargs ''name'' = Inr i"
    and n: "kwarg_s op_kwargs ''name'' = Inr n"
    and r: "new_OperationModel d i m n ps u (extract_tags str_node op_kwargs) q = Some r"
    using assms by (auto simp: model_of_def split: sum.splits if_splits option.splits)
  have "i = n" using i n by simp
  then show "id' r = name r" using new_OperationModel_fields(1,2) [OF r] by simp
  show "tags r = extract_tags str_node op_kwargs"
    using new_OperationModel_fields(3) [OF r] .
qed

lemma operation_of_fields:
  assumes "operation_of str_node op_kwargs = Inr (Some r)"
  shows "id' r = name r" and "tags r = extract_tags str_node op_kwargs"
  using assms model_of_fields
  by (auto simp: operation_of_def split: option.splits sum.splits)

lemma decorator_op_id: "decorator_op str_node d = Inr (Some r) \<Longrightarrow> id' r = name r"
  by (auto simp: decorator_op_def split: expr.splits if_splits dest: operation_of_fields(1))

lemma decorators_ops_id: "r \<in> set (decorators_ops str_node ds) \<Longrightarrow> id' r = name r"
  by (induction ds)
     (auto split: sum.splits option.splits dest: decorator_op_id decorator_op_id [OF sym])

lemma extract_ops_id: "r \<in> set (extract_ops_from_file str_node walked) \<Longrightarrow> id' r = name r"
  by (auto simp: extract_ops_from_file_def node_ops_def split: sum.splits node.splits
      dest: decorators_ops_id)

lemma extract_tags_omitted:
  "\<not> has_key op_kwargs ''tags'' \<Longrightarrow> extract_tags str_node op_kwargs = []"
  by (simp add: has_key_def extract_tags_def split: option.splits)

text \<open>
  C8, as the code has it. A record produced from a marker call without the keyword
  \<^verbatim>\<open>tags\<close> has the empty list of tags: \<^verbatim>\<open>extract_tags\<close> returns its own default \<^verbatim>\<open>[]\<close>.
\<close>

theorem omitted_tags_are_empty:
  assumes "decorator_op str_node (Call func args keywords) = Inr (Some r)"
    and "\<not> has_key (op_kwargs_of keywords) ''tags''"
  shows "tags r = []"
proof -
  have "operation_of str_node (op_kwargs_of keywords) = Inr (Some r)"
    using assms(1) by (auto simp: decorator_op_def split: if_splits)
  then have "tags r = extract_tags str_node (op_kwargs_of keywords)"
    by (rule operation_of_fields(2))
  then show ?thesis using extract_tags_omitted [OF assms(2)] by simp
qed

theorem omitted_tags_are_empty_witness:
  "decorator_op node_text (Call (Name ''op'') [] echo_keywords) = Inr (Some scanned) \<and>
   \<not> has_key (op_kwargs_of echo_keywords) ''tags'' \<and>
   tags scanned = []"
proof -
  have d: "decorator_op node_text (Call (Name ''op'') [] echo_keywords) = Inr (Some scanned)"
    using echo_decl_scanned by (simp add: echo_decl_def)
  have k: "\<not> has_key (op_kwargs_of echo_keywords) ''tags''"
    by (simp add: has_key_def op_kwargs_of_def echo_keywords_def)
  show ?thesis using d k omitted_tags_are_empty [OF d k] by simp
qed

text \<open>
  C8, as stated, fails. The declaration \<open>echo_decl\<close> qualifies and has no \<^verbatim>\<open>tags\<close> keyword;
  the scan of a file that holds it gives one record, whose tags are \<^verbatim>\<open>[]\<close> and not
  \<^verbatim>\<open>["default"]\<close>.
\<close>

theorem omitted_tags_default_counterexample:
  "qualifies (op_kwargs_of echo_keywords) \<and>
   \<not> has_key (op_kwargs_of echo_keywords) ''tags'' \<and>
   scan_ops node_text [Inr [FunctionDef ''echo'' [echo_decl]]] = [scanned] \<and>
   tags scanned = [] \<and>
   tags scanned \<noteq> [''default'']"
  by (simp add: qualifies_def has_key_def op_kwargs_of_def echo_keywords_def scan_ops_def
      extract_ops_from_file_def node_ops_def echo_decl_scanned scanned_def)

text \<open>
  Whatever else it carries, a marker call that passes the candidate test without the keyword
  \<^verbatim>\<open>params\<close> raises \<^verbatim>\<open>KeyError\<close> and yields no record.
\<close>

lemma no_params_raises:
  assumes "func = Name ''op'' \<or> func = Name ''vop''"
    and "qualifies (op_kwargs_of keywords)"
    and "\<not> has_key (op_kwargs_of keywords) ''params''"
  shows "decorator_op str_node (Call func args keywords) = Inl (KeyError ''params'')"
  using assms by (auto simp: decorator_op_def operation_of_def has_key_def split: option.splits)

text \<open>
  C7. A declaration with \<^verbatim>\<open>description\<close>, \<^verbatim>\<open>name\<close>, \<^verbatim>\<open>path\<close> and a nested \<^verbatim>\<open>parameters\<close>
  but no \<^verbatim>\<open>params\<close> must be extracted. It passes the candidate test, and then
  \<^verbatim>\<open>op_kwargs["params"]\<close> raises \<^verbatim>\<open>KeyError\<close>: the scan gives no record for it. The same
  declaration with \<^verbatim>\<open>params={}\<close> in the place of \<^verbatim>\<open>parameters\<close> is extracted.
\<close>

theorem nested_parameters_not_extracted:
  "qualifies (op_kwargs_of nested_keywords) \<and>
   has_key (op_kwargs_of nested_keywords) ''parameters'' \<and>
   \<not> has_key (op_kwargs_of nested_keywords) ''params'' \<and>
   decorator_op node_text nested_decl = Inl (KeyError ''params'') \<and>
   scan_ops node_text [Inr [FunctionDef ''echo'' [nested_decl]]] = [] \<and>
   scan_ops node_text [Inr [FunctionDef ''echo'' [echo_decl]]] = [scanned]"
  by (simp add: qualifies_def has_key_def op_kwargs_of_def nested_keywords_def scan_ops_def
      extract_ops_from_file_def node_ops_def echo_decl_scanned nested_decl_raises)

text \<open>Every record the scanner emits has its id equal to its name.\<close>

lemma scanned_id_is_name:
  "r \<in> set (extract_ops_from_file str_node walked) \<Longrightarrow> id' r = name r"
  by (rule extract_ops_id)

text \<open>
  C10. Two declarations with one name must give records with one id that replace each
  other on upsert within a partition. The scan of a file with \<open>echo_decl\<close> and \<open>echo_decl2\<close>
  gives two records with the same name and the same id. The tool's \<^verbatim>\<open>write_ops\<close>, which
  is what \<^verbatim>\<open>scan_and_register_ops\<close> hands the scanner's records to, writes the first
  under \<^verbatim>\<open>"all"\<close>, the second under \<^verbatim>\<open>"default"\<close>, and raises \<^verbatim>\<open>NameError\<close> when it meets
  the first in the \<^verbatim>\<open>"all"\<close> partition: that partition keeps the first record.
\<close>

theorem scanned_same_name_not_replaced:
  "extract_ops_from_file node_text
     (Inr [FunctionDef ''echo'' [echo_decl], OtherNode, FunctionDef ''echo_again'' [echo_decl2]]) =
     [scanned, scanned2] \<and>
   id' scanned = name scanned \<and> id' scanned2 = name scanned2 \<and>
   name scanned = name scanned2 \<and> id' scanned = id' scanned2 \<and>
   fst (write_ops_cli (Some ''ops'') ''system'' None (Some [scanned, scanned2]) no_table) =
     Inl (NameError ''json'') \<and>
   records (snd (write_ops_cli (Some ''ops'') ''system'' None (Some [scanned, scanned2]) no_table))
       ''system'' ''default'' =
     [(model_dump scanned2)\<lparr>op_tags := Some [''default'', ''all'']\<rparr>] \<and>
   records (snd (write_ops_cli (Some ''ops'') ''system'' None (Some [scanned, scanned2]) no_table))
       ''system'' ''all'' =
     [(model_dump scanned)\<lparr>op_tags := Some [''all'']\<rparr>]"
proof -
  have x: "extract_ops_from_file node_text
     (Inr [FunctionDef ''echo'' [echo_decl], OtherNode, FunctionDef ''echo_again'' [echo_decl2]]) =
     [scanned, scanned2]"
    by (simp add: extract_ops_from_file_def node_ops_def echo_decl_scanned echo_decl2_scanned)
  have n: "id' scanned = name scanned" "id' scanned2 = name scanned2"
    "name scanned = name scanned2" "id' scanned = id' scanned2"
    by (simp_all add: scanned_def scanned2_def)
  have w: "write_ops_cli (Some ''ops'') ''system'' None (Some [scanned, scanned2]) no_table =
     (Inl (NameError ''json''),
      no_table((''system'', ''all'') \<mapsto> Some [(model_dump scanned)\<lparr>op_tags := Some [''all'']\<rparr>],
               (''system'', ''default'') \<mapsto>
                  Some [(model_dump scanned2)\<lparr>op_tags := Some [''default'', ''all'']\<rparr>]))"
    by (simp add: write_ops_cli_def write_op_cli_def write_tag_cli_def append_all_def
        operation_tags_def model_dump_def scanned_def scanned2_def no_table_def Let_def)
  show ?thesis using x n by (simp add: w records_def)
qed

end
